theory Spec2Isabelle
  imports Main "HOL-Library.Word"
begin

unbundle bit_operations_syntax

section \<open>kstate: shared state with optimistic transactions\<close>

text \<open>
  A shallow embedding of the kstate library (the C file that defines
  \<^verbatim>\<open>struct kstate_state\<close>, \<^verbatim>\<open>struct kstate_transaction\<close> and the
  \<^verbatim>\<open>kstate_*\<close> functions). Handles are pointers in C; here a handle is an
  \<open>option\<close> of the record it points to, \<open>None\<close> being the NULL pointer, and a
  function that writes through the pointer returns the updated record. A
  \<^verbatim>\<open>char *\<close> that is either NULL or a NUL-terminated string is a \<open>string option\<close>;
  \<^verbatim>\<open>free(p); p = NULL\<close> is the field going back to \<open>None\<close>. The diagnostic
  \<^verbatim>\<open>printf\<close>/\<^verbatim>\<open>fprintf\<close> output is not modelled.
\<close>

subsection \<open>Constants\<close>

definition KSTATE_READ :: "32 word" where
  "KSTATE_READ = 1"

definition KSTATE_WRITE :: "32 word" where
  "KSTATE_WRITE = 2"

text \<open>\<^verbatim>\<open>NAME_MAX\<close> of \<^verbatim>\<open><limits.h>\<close>; 255 on Linux, and the header's comment
  expects \<^verbatim>\<open>KSTATE_MAX_NAME_LEN\<close> to be 254.\<close>

definition NAME_MAX :: nat where
  "NAME_MAX = 255"

definition KSTATE_MAX_NAME_LEN :: nat where
  "KSTATE_MAX_NAME_LEN = NAME_MAX - 1"

text \<open>Modelled from the spec: the macro \<^verbatim>\<open>KSTATE_NAME_PREFIX_LEN\<close> is used by the
  accessors but its definition is not in the header at hand. The canonical name is
  \<^verbatim>\<open>"/kstate."\<close> followed by the user's name, and the prefix is stripped when a name
  is reported back, so the macro is the length of that prefix.\<close>

definition KSTATE_NAME_PREFIX :: string where
  "KSTATE_NAME_PREFIX = ''/kstate.''"

definition KSTATE_NAME_PREFIX_LEN :: nat where
  "KSTATE_NAME_PREFIX_LEN = 8"

text \<open>The \<^verbatim>\<open>errno\<close> values that occur, with their Linux numbers. Every one is
  positive, so a returned \<^verbatim>\<open>-errno\<close> is negative.\<close>

datatype errno = EPERM | ENOENT | EBADF | ENOMEM | EACCES | EINVAL | ENFILE | EMFILE

fun errno_val :: "errno \<Rightarrow> int" where
  "errno_val EPERM = 1"
| "errno_val ENOENT = 2"
| "errno_val EBADF = 9"
| "errno_val ENOMEM = 12"
| "errno_val EACCES = 13"
| "errno_val EINVAL = 22"
| "errno_val ENFILE = 23"
| "errno_val EMFILE = 24"

subsection \<open>Name validation\<close>

text \<open>\<^verbatim>\<open>isalnum\<close> in the C locale: the ASCII digits and letters only.\<close>

definition isalnum :: "char \<Rightarrow> bool" where
  "isalnum c = (let n = (of_char c :: nat) in
     (48 \<le> n \<and> n \<le> 57) \<or> (65 \<le> n \<and> n \<le> 90) \<or> (97 \<le> n \<and> n \<le> 122))"

text \<open>The conversion of an \<^verbatim>\<open>int\<close> to \<^verbatim>\<open>size_t\<close> (64 bits) that the comparison
  \<^verbatim>\<open>dot_at == ii - 1\<close> performs on its left operand, and the wrap-around of the
  unsigned \<^verbatim>\<open>ii - 1\<close> on its right.\<close>

definition to_size_t :: "int \<Rightarrow> int" where
  "to_size_t i = i mod 2 ^ 64"

text \<open>The \<^verbatim>\<open>for (ii = 0; ii < name_len; ii++)\<close> loop of \<^verbatim>\<open>check_state_name\<close>, from
  index \<open>ii\<close> on, with the current value of \<^verbatim>\<open>dot_at\<close>. \<open>False\<close> is one of the two
  \<^verbatim>\<open>return 0\<close> inside the loop, \<open>True\<close> is the loop running to its end.\<close>

function name_loop :: "string \<Rightarrow> nat \<Rightarrow> int \<Rightarrow> bool" where
  "name_loop name ii dot_at =
     (if ii < length name then
        (if name ! ii = CHR ''.'' then
           (if to_size_t dot_at = to_size_t (int ii - 1) then False
            else name_loop name (ii + 1) (int ii))
         else if \<not> isalnum (name ! ii) then False
         else name_loop name (ii + 1) dot_at)
      else True)"
  by pat_completeness auto
termination
  by (relation "measure (\<lambda>(name, ii, dot_at). length name - ii)") auto

declare name_loop.simps [simp del]

text \<open>\<^verbatim>\<open>check_state_name\<close>: the name's length if it is acceptable, 0 if not.
  \<^verbatim>\<open>dot_at\<close> starts at 1.\<close>

definition check_state_name :: "string option \<Rightarrow> nat" where
  "check_state_name name =
     (case name of
        None \<Rightarrow> 0
      | Some nm \<Rightarrow>
          (let name_len = length nm in
           if name_len = 0 then 0
           else if name_len > KSTATE_MAX_NAME_LEN then 0
           else if nm ! 0 = CHR ''.'' \<or> nm ! (name_len - 1) = CHR ''.'' then 0
           else if name_loop nm 0 1 then name_len
           else 0))"

text \<open>\<^verbatim>\<open>new_state_name\<close>: \<^verbatim>\<open>-EINVAL\<close> for a NULL or unacceptable name,
  \<^verbatim>\<open>-ENOMEM\<close> when \<^verbatim>\<open>malloc\<close> fails (\<open>malloc_ok\<close> is the allocator's answer),
  otherwise the canonical name that \<^verbatim>\<open>sprintf\<close> builds.\<close>

definition new_state_name :: "bool \<Rightarrow> string option \<Rightarrow> int + string" where
  "new_state_name malloc_ok name =
     (case name of
        None \<Rightarrow> Inl (- errno_val EINVAL)
      | Some nm \<Rightarrow>
          if check_state_name name = 0 then Inl (- errno_val EINVAL)
          else if \<not> malloc_ok then Inl (- errno_val ENOMEM)
          else Inr (KSTATE_NAME_PREFIX @ nm))"

text \<open>The rules for a user-supplied name as the documentation of
  \<^verbatim>\<open>kstate_subscribe_state\<close> and the specification give them.\<close>

fun adjacent_dots :: "string \<Rightarrow> bool" where
  "adjacent_dots (a # b # cs) = ((a = CHR ''.'' \<and> b = CHR ''.'') \<or> adjacent_dots (b # cs))"
| "adjacent_dots cs = False"

definition name_allowed :: "string \<Rightarrow> bool" where
  "name_allowed nm \<longleftrightarrow>
     nm \<noteq> [] \<and> length nm \<le> 254
     \<and> list_all (\<lambda>c. isalnum c \<or> c = CHR ''.'') nm
     \<and> hd nm \<noteq> CHR ''.'' \<and> last nm \<noteq> CHR ''.''
     \<and> \<not> adjacent_dots nm"

text \<open>Two devices for the proofs about the loop: the loop as a recursion over the
  characters that are left, and the index of the first dot of a string (its length
  when it has none).\<close>

fun name_scan :: "string \<Rightarrow> nat \<Rightarrow> int \<Rightarrow> bool" where
  "name_scan [] ii dot_at = True"
| "name_scan (c # cs) ii dot_at =
     (if c = CHR ''.'' then
        (if to_size_t dot_at = to_size_t (int ii - 1) then False
         else name_scan cs (ii + 1) (int ii))
      else if \<not> isalnum c then False
      else name_scan cs (ii + 1) dot_at)"

definition dot_pos :: "string \<Rightarrow> nat" where
  "dot_pos cs = length (takeWhile (\<lambda>c. c \<noteq> CHR ''.'') cs)"

subsection \<open>The operating system\<close>

text \<open>
  The POSIX primitives are not part of the library; they are modelled after their
  manual pages, as far as the library uses them. Shared-memory objects are numbered;
  \<open>shm_dir\<close> is the name space (\<^verbatim>\<open>/dev/shm\<close>), \<open>shm_obj\<close> holds the bytes of every
  object ever created (an unlinked object stays there, as it stays alive while it is
  mapped), \<open>fd_tab\<close> the open descriptors of the process (object and whether opened
  \<^verbatim>\<open>O_RDWR\<close>), \<open>vm\<close> the mappings of the process by base address. An address is a
  number; NULL is 0 and \<^verbatim>\<open>MAP_FAILED\<close> is \<^verbatim>\<open>(void *) -1\<close>.

  What the kernel decides on its own is an argument of the primitive: a call that
  acquires something takes either the \<^verbatim>\<open>errno\<close> it fails with or the descriptor or
  address the kernel hands out. A descriptor or address that is already in use, which
  no kernel hands out, counts as a failure. The calls that release something
  (\<^verbatim>\<open>munmap\<close>, \<^verbatim>\<open>close\<close>, \<^verbatim>\<open>shm_unlink\<close>) fail only as POSIX says they do.
\<close>

type_synonym byte = "8 word"

definition MAP_FAILED :: nat where
  "MAP_FAILED = 2 ^ 64 - 1"

datatype backing = Shm nat | Anon "byte list"

record region =
  m_backing :: backing
  m_length :: nat
  m_write :: bool

record os =
  page_size :: nat
  shm_dir :: "string \<rightharpoonup> nat"
  shm_obj :: "byte list list"
  fd_tab :: "nat \<rightharpoonup> nat \<times> bool"
  vm :: "nat \<rightharpoonup> region"

text \<open>\<^verbatim>\<open>shm_open(name, flags, mode)\<close> with \<open>rdwr\<close> for \<^verbatim>\<open>O_RDWR\<close> (else
  \<^verbatim>\<open>O_RDONLY\<close>) and \<open>creat\<close> for \<^verbatim>\<open>O_CREAT\<close>. A new object has length 0.\<close>

definition os_shm_open :: "errno + nat \<Rightarrow> os \<Rightarrow> string \<Rightarrow> bool \<Rightarrow> bool \<Rightarrow> (errno + nat) \<times> os" where
  "os_shm_open k os nm rdwr creat =
     (case k of
        Inl e \<Rightarrow> (Inl e, os)
      | Inr fd \<Rightarrow>
          if fd_tab os fd \<noteq> None then (Inl EMFILE, os)
          else (case shm_dir os nm of
                  Some ob \<Rightarrow> (Inr fd, os\<lparr>fd_tab := (fd_tab os)(fd \<mapsto> (ob, rdwr))\<rparr>)
                | None \<Rightarrow>
                    if creat then
                      (Inr fd, os\<lparr>shm_dir := (shm_dir os)(nm \<mapsto> length (shm_obj os)),
                                  shm_obj := shm_obj os @ [[]],
                                  fd_tab := (fd_tab os)(fd \<mapsto> (length (shm_obj os), rdwr))\<rparr>)
                    else (Inl ENOENT, os)))"

text \<open>\<^verbatim>\<open>ftruncate\<close>: a longer object is cut, a shorter one is extended with null
  bytes.\<close>

definition resize :: "nat \<Rightarrow> byte list \<Rightarrow> byte list" where
  "resize n bs = take n bs @ replicate (n - length bs) 0"

definition os_ftruncate :: "errno option \<Rightarrow> os \<Rightarrow> nat \<Rightarrow> nat \<Rightarrow> errno option \<times> os" where
  "os_ftruncate k os fd len =
     (case k of
        Some e \<Rightarrow> (Some e, os)
      | None \<Rightarrow>
          (case fd_tab os fd of
             None \<Rightarrow> (Some EBADF, os)
           | Some (ob, rdwr) \<Rightarrow>
               if \<not> rdwr \<or> \<not> ob < length (shm_obj os) then (Some EINVAL, os)
               else (None, os\<lparr>shm_obj := (shm_obj os)[ob := resize len (shm_obj os ! ob)]\<rparr>)))"

text \<open>\<^verbatim>\<open>mmap(NULL, len, prot, flags, fd, 0)\<close>: \<open>wr\<close> is \<^verbatim>\<open>PROT_WRITE\<close> (\<^verbatim>\<open>PROT_READ\<close> is
  always asked for), \<open>src\<close> is the descriptor of a \<^verbatim>\<open>MAP_SHARED\<close> mapping or \<open>None\<close>
  for \<^verbatim>\<open>MAP_PRIVATE|MAP_ANONYMOUS\<close>, which is zero-filled. The library maps one page
  at a time, so mappings are told apart by their base address.\<close>

definition os_mmap :: "errno + nat \<Rightarrow> os \<Rightarrow> nat \<Rightarrow> bool \<Rightarrow> nat option \<Rightarrow> (errno + nat) \<times> os" where
  "os_mmap k os len wr src =
     (case k of
        Inl e \<Rightarrow> (Inl e, os)
      | Inr a \<Rightarrow>
          if len = 0 then (Inl EINVAL, os)
          else if a = 0 \<or> a = MAP_FAILED \<or> a mod page_size os \<noteq> 0 \<or> vm os a \<noteq> None
          then (Inl ENOMEM, os)
          else (case src of
                  None \<Rightarrow>
                    (Inr a, os\<lparr>vm := (vm os)(a \<mapsto>
                       \<lparr>m_backing = Anon (replicate len 0), m_length = len, m_write = wr\<rparr>)\<rparr>)
                | Some fd \<Rightarrow>
                    (case fd_tab os fd of
                       None \<Rightarrow> (Inl EBADF, os)
                     | Some (ob, rdwr) \<Rightarrow>
                         if wr \<and> \<not> rdwr then (Inl EACCES, os)
                         else (Inr a, os\<lparr>vm := (vm os)(a \<mapsto>
                                \<lparr>m_backing = Shm ob, m_length = len, m_write = wr\<rparr>)\<rparr>))))"

text \<open>The value \<^verbatim>\<open>mmap\<close> returns to C: the address, or \<^verbatim>\<open>MAP_FAILED\<close>.\<close>

definition mmap_result :: "errno + nat \<Rightarrow> nat" where
  "mmap_result r = (case r of Inl e \<Rightarrow> MAP_FAILED | Inr a \<Rightarrow> a)"

text \<open>\<^verbatim>\<open>munmap\<close> fails with \<^verbatim>\<open>EINVAL\<close> on a length of 0 or an address that is not a
  multiple of the page size, and with nothing else; unmapping where nothing is mapped
  is not an error.\<close>

definition os_munmap :: "os \<Rightarrow> nat \<Rightarrow> nat \<Rightarrow> errno option \<times> os" where
  "os_munmap os a len =
     (if len = 0 \<or> a mod page_size os \<noteq> 0 then (Some EINVAL, os)
      else (None, os\<lparr>vm := (vm os)(a := None)\<rparr>))"

definition os_mprotect :: "errno option \<Rightarrow> os \<Rightarrow> nat \<Rightarrow> nat \<Rightarrow> bool \<Rightarrow> errno option \<times> os" where
  "os_mprotect k os a len wr =
     (case k of
        Some e \<Rightarrow> (Some e, os)
      | None \<Rightarrow>
          (case vm os a of
             None \<Rightarrow> (Some ENOMEM, os)
           | Some m \<Rightarrow> (None, os\<lparr>vm := (vm os)(a \<mapsto> m\<lparr>m_write := wr\<rparr>)\<rparr>)))"

text \<open>The library ignores what \<^verbatim>\<open>close\<close> returns, and only logs what
  \<^verbatim>\<open>shm_unlink\<close> returns.\<close>

definition os_close :: "os \<Rightarrow> nat \<Rightarrow> os" where
  "os_close os fd = os\<lparr>fd_tab := (fd_tab os)(fd := None)\<rparr>"

definition os_shm_unlink :: "os \<Rightarrow> string \<Rightarrow> os" where
  "os_shm_unlink os nm = os\<lparr>shm_dir := (shm_dir os)(nm := None)\<rparr>"

text \<open>Reading \<open>n\<close> bytes at an address and storing bytes at an address, as
  \<^verbatim>\<open>memcmp\<close>, \<^verbatim>\<open>memcpy\<close> and the caller's own loads and stores do. \<open>None\<close> is the
  signal the process gets: nothing mapped there, a store to a page without
  \<^verbatim>\<open>PROT_WRITE\<close>, or an access past the end of the mapping or of the object.\<close>

definition os_load :: "os \<Rightarrow> nat \<Rightarrow> nat \<Rightarrow> byte list option" where
  "os_load os a n =
     (case vm os a of
        None \<Rightarrow> None
      | Some m \<Rightarrow>
          if n > m_length m then None
          else (case m_backing m of
                  Anon bs \<Rightarrow> if n \<le> length bs then Some (take n bs) else None
                | Shm ob \<Rightarrow>
                    if ob < length (shm_obj os) \<and> n \<le> length (shm_obj os ! ob)
                    then Some (take n (shm_obj os ! ob)) else None))"

definition os_store :: "os \<Rightarrow> nat \<Rightarrow> byte list \<Rightarrow> os option" where
  "os_store os a bs =
     (case vm os a of
        None \<Rightarrow> None
      | Some m \<Rightarrow>
          if \<not> m_write m \<or> length bs > m_length m then None
          else (case m_backing m of
                  Anon old \<Rightarrow>
                    if length bs \<le> length old
                    then Some (os\<lparr>vm := (vm os)(a \<mapsto> m\<lparr>m_backing := Anon (bs @ drop (length bs) old)\<rparr>)\<rparr>)
                    else None
                | Shm ob \<Rightarrow>
                    if ob < length (shm_obj os) \<and> length bs \<le> length (shm_obj os ! ob)
                    then Some (os\<lparr>shm_obj := (shm_obj os)[ob := bs @ drop (length bs) (shm_obj os ! ob)]\<rparr>)
                    else None))"

text \<open>What a call of the library ends in when it makes an access that C leaves
  undefined: a NULL or unmapped address, a store to a read-only page, a read past the
  end of a buffer.\<close>

datatype fault = BadAccess

text \<open>The answers of the allocator and of the kernel during one call of the library:
  the \<^verbatim>\<open>malloc\<close> of the name (or of the handle), the \<^verbatim>\<open>malloc\<close> of the snapshot,
  \<^verbatim>\<open>shm_open\<close>, \<^verbatim>\<open>ftruncate\<close>, the \<^verbatim>\<open>mmap\<close> of the shared object, the anonymous
  \<^verbatim>\<open>mmap\<close> and \<^verbatim>\<open>mprotect\<close>.\<close>

record env =
  e_malloc :: bool
  e_malloc_copy :: bool
  e_shm_open :: "errno + nat"
  e_ftruncate :: "errno option"
  e_mmap :: "errno + nat"
  e_mmap_anon :: "errno + nat"
  e_mprotect :: "errno option"

subsection \<open>Handles\<close>

text \<open>The two structs. The fields carry a prefix, since both structs have a
  \<^verbatim>\<open>name\<close>, an \<^verbatim>\<open>id\<close> and so on. \<open>t_state_map_copy\<close> is the \<^verbatim>\<open>malloc\<close>ed
  snapshot, or NULL.\<close>

record kstate_state =
  s_name :: "string option"
  s_permissions :: "32 word"
  s_id :: "32 word"
  s_map_addr :: nat
  s_map_length :: nat

record kstate_transaction =
  t_name :: "string option"
  t_id :: "32 word"
  t_permissions :: "32 word"
  t_state_map_addr :: nat
  t_state_map_copy :: "byte list option"
  t_map_addr :: nat
  t_map_length :: nat

definition state_permissions_are_bad :: "32 word \<Rightarrow> bool" where
  "state_permissions_are_bad permissions =
     (if permissions = 0 then True
      else if permissions AND NOT (KSTATE_READ OR KSTATE_WRITE) \<noteq> 0 then True
      else False)"

definition transaction_permissions_are_bad :: "32 word \<Rightarrow> bool" where
  "transaction_permissions_are_bad permissions =
     (if permissions = 0 then True
      else if permissions AND NOT (KSTATE_READ OR KSTATE_WRITE) \<noteq> 0 then True
      else False)"

subsection \<open>Observers\<close>

definition kstate_state_is_subscribed :: "kstate_state option \<Rightarrow> bool" where
  "kstate_state_is_subscribed state =
     (case state of None \<Rightarrow> False | Some s \<Rightarrow> s_name s \<noteq> None)"

definition kstate_transaction_is_active :: "kstate_transaction option \<Rightarrow> bool" where
  "kstate_transaction_is_active transaction =
     (case transaction of None \<Rightarrow> False | Some t \<Rightarrow> t_name t \<noteq> None)"

text \<open>The name accessors return a pointer into the stored name, past the prefix:
  the rest of the string.\<close>

definition kstate_get_state_name :: "kstate_state option \<Rightarrow> string option" where
  "kstate_get_state_name state =
     (if kstate_state_is_subscribed state
      then map_option (drop KSTATE_NAME_PREFIX_LEN) (s_name (the state))
      else None)"

definition kstate_get_transaction_name :: "kstate_transaction option \<Rightarrow> string option" where
  "kstate_get_transaction_name transaction =
     (if kstate_transaction_is_active transaction
      then map_option (drop KSTATE_NAME_PREFIX_LEN) (t_name (the transaction))
      else None)"

definition kstate_get_state_permissions :: "kstate_state option \<Rightarrow> 32 word" where
  "kstate_get_state_permissions state =
     (if kstate_state_is_subscribed state then s_permissions (the state) else 0)"

definition kstate_get_transaction_permissions :: "kstate_transaction option \<Rightarrow> 32 word" where
  "kstate_get_transaction_permissions transaction =
     (if kstate_transaction_is_active transaction then t_permissions (the transaction) else 0)"

definition kstate_get_state_id :: "kstate_state option \<Rightarrow> 32 word" where
  "kstate_get_state_id state =
     (if kstate_state_is_subscribed state then s_id (the state) else 0)"

definition kstate_get_transaction_id :: "kstate_transaction option \<Rightarrow> 32 word" where
  "kstate_get_transaction_id transaction =
     (if kstate_transaction_is_active transaction then t_id (the transaction) else 0)"

definition kstate_get_state_ptr :: "kstate_state option \<Rightarrow> nat" where
  "kstate_get_state_ptr state =
     (if kstate_state_is_subscribed state then s_map_addr (the state) else 0)"

definition kstate_get_transaction_ptr :: "kstate_transaction option \<Rightarrow> nat" where
  "kstate_get_transaction_ptr transaction =
     (if kstate_transaction_is_active transaction then t_map_addr (the transaction) else 0)"

subsection \<open>State handles\<close>

text \<open>\<^verbatim>\<open>kstate_new_state\<close>: \<open>malloc_ok\<close> is whether \<^verbatim>\<open>malloc\<close> returned a block,
  \<open>next_state_id\<close> the static counter, which is returned updated. The function passes
  what \<^verbatim>\<open>malloc\<close> returned straight to \<^verbatim>\<open>memset\<close>.\<close>

definition kstate_new_state :: "bool \<Rightarrow> 32 word \<Rightarrow> fault + (kstate_state option \<times> 32 word)" where
  "kstate_new_state malloc_ok next_state_id =
     (if \<not> malloc_ok then Inl BadAccess
      else
        (let new = \<lparr>s_name = None, s_permissions = 0, s_id = 0, s_map_addr = 0, s_map_length = 0\<rparr>;
             new = new\<lparr>s_id := next_state_id\<rparr>;
             next_state_id = next_state_id + 1;
             next_state_id = (if next_state_id = 0 then 1 else next_state_id)
         in Inr (Some new, next_state_id)))"

text \<open>The second half of \<^verbatim>\<open>kstate_subscribe_state\<close>, from the assignment of
  \<^verbatim>\<open>state->permissions\<close> on: the shared object is opened (and created and sized
  when the permissions include \<^verbatim>\<open>KSTATE_WRITE\<close>) and mapped read-only. \<open>nm\<close> is
  the canonical name \<^verbatim>\<open>new_state_name\<close> stored in \<^verbatim>\<open>state->name\<close>;
  \<open>permissions\<close> has \<^verbatim>\<open>KSTATE_READ\<close> added already.\<close>

definition subscribe_mapping ::
  "env \<Rightarrow> os \<Rightarrow> kstate_state \<Rightarrow> string \<Rightarrow> 32 word \<Rightarrow> int \<times> os \<times> kstate_state option" where
  "subscribe_mapping ev os s nm permissions =
     (let s = s\<lparr>s_name := Some nm, s_permissions := permissions\<rparr>;
          creating = (permissions AND KSTATE_WRITE \<noteq> 0)
      in
        (case os_shm_open (e_shm_open ev) os nm creating creating of
           (Inl rv, os) \<Rightarrow>
             (- errno_val rv, os, Some (s\<lparr>s_name := None, s_permissions := 0\<rparr>))
         | (Inr shm_fd, os) \<Rightarrow>
             (case (if creating then os_ftruncate (e_ftruncate ev) os shm_fd (page_size os)
                    else (None, os)) of
                (Some rv, os) \<Rightarrow>
                  (- errno_val rv, os, Some (s\<lparr>s_name := None, s_permissions := 0\<rparr>))
              | (None, os) \<Rightarrow>
                  (let s = s\<lparr>s_map_length := page_size os\<rparr> in
                     (case os_mmap (e_mmap ev) os (s_map_length s) False (Some shm_fd) of
                        (Inl rv, os) \<Rightarrow>
                          (- errno_val rv, os,
                           Some (s\<lparr>s_name := None, s_permissions := 0,
                                   s_map_addr := 0, s_map_length := 0\<rparr>))
                      | (Inr a, os) \<Rightarrow>
                          (0, os_close os shm_fd, Some (s\<lparr>s_map_addr := a\<rparr>)))))))"

text \<open>\<^verbatim>\<open>kstate_subscribe_state\<close>: the checks of the arguments and of the name, in
  the order of the source, then the part above.\<close>

definition kstate_subscribe_state ::
  "env \<Rightarrow> os \<Rightarrow> kstate_state option \<Rightarrow> string option \<Rightarrow> 32 word \<Rightarrow> int \<times> os \<times> kstate_state option" where
  "kstate_subscribe_state ev os state name permissions =
     (case state of
        None \<Rightarrow> (- errno_val EINVAL, os, None)
      | Some s \<Rightarrow>
          if kstate_state_is_subscribed state then (- errno_val EINVAL, os, state)
          else if state_permissions_are_bad permissions then (- errno_val EINVAL, os, state)
          else
            (case new_state_name (e_malloc ev) name of
               Inl rv \<Rightarrow> (rv, os, state)
             | Inr nm \<Rightarrow>
                 (let permissions = (if permissions AND KSTATE_READ = 0
                                     then permissions OR KSTATE_READ else permissions)
                  in subscribe_mapping ev os s nm permissions)))"

definition kstate_unsubscribe_state :: "os \<Rightarrow> kstate_state option \<Rightarrow> os \<times> kstate_state option" where
  "kstate_unsubscribe_state os state =
     (case state of
        None \<Rightarrow> (os, None)
      | Some s \<Rightarrow>
          (let (os, s) =
                 (if s_map_addr s \<noteq> 0 \<and> s_map_addr s \<noteq> MAP_FAILED
                  then (snd (os_munmap os (s_map_addr s) (s_map_length s)),
                        s\<lparr>s_map_addr := 0, s_map_length := 0\<rparr>)
                  else (os, s));
               (os, s) =
                 (case s_name s of
                    Some nm \<Rightarrow> (os_shm_unlink os nm, s\<lparr>s_name := None\<rparr>)
                  | None \<Rightarrow> (os, s))
           in (os, Some (s\<lparr>s_permissions := 0\<rparr>))))"

text \<open>\<^verbatim>\<open>kstate_free_state\<close> takes the address of the caller's handle variable:
  \<open>None\<close> is a NULL address, \<open>Some h\<close> a variable holding the handle \<open>h\<close>. The
  result is the variable afterwards.\<close>

definition kstate_free_state :: "os \<Rightarrow> kstate_state option option \<Rightarrow> os \<times> kstate_state option option" where
  "kstate_free_state os state =
     (case state of
        None \<Rightarrow> (os, None)
      | Some None \<Rightarrow> (os, Some None)
      | Some (Some s) \<Rightarrow>
          (let os = (if kstate_state_is_subscribed (Some s)
                     then fst (kstate_unsubscribe_state os (Some s)) else os)
           in (os, Some None)))"

subsection \<open>Transaction handles\<close>

definition kstate_new_transaction ::
  "bool \<Rightarrow> 32 word \<Rightarrow> fault + (kstate_transaction option \<times> 32 word)" where
  "kstate_new_transaction malloc_ok next_transaction_id =
     (if \<not> malloc_ok then Inl BadAccess
      else
        (let new = \<lparr>t_name = None, t_id = 0, t_permissions = 0, t_state_map_addr = 0,
                    t_state_map_copy = None, t_map_addr = 0, t_map_length = 0\<rparr>;
             new = new\<lparr>t_id := next_transaction_id\<rparr>;
             next_transaction_id = next_transaction_id + 1;
             next_transaction_id = (if next_transaction_id = 0 then 1 else next_transaction_id)
         in Inr (Some new, next_transaction_id)))"

text \<open>\<^verbatim>\<open>clear_transaction\<close>: the return value, the system and the struct afterwards.
  Each \<^verbatim>\<open>munmap\<close> that fails ends the function at once.\<close>

definition clear_transaction :: "os \<Rightarrow> kstate_transaction \<Rightarrow> int \<times> os \<times> kstate_transaction" where
  "clear_transaction os transaction =
     (let t = (if t_state_map_copy transaction \<noteq> None
               then transaction\<lparr>t_state_map_copy := None\<rparr> else transaction)
      in
        (case (if t_state_map_addr t \<noteq> 0 \<and> t_state_map_addr t \<noteq> MAP_FAILED
               then os_munmap os (t_state_map_addr t) (t_map_length t) else (None, os)) of
           (Some rv, os) \<Rightarrow> (- errno_val rv, os, t)
         | (None, os) \<Rightarrow>
             (let t = (if t_state_map_addr t \<noteq> 0 \<and> t_state_map_addr t \<noteq> MAP_FAILED
                       then t\<lparr>t_state_map_addr := 0\<rparr> else t)
              in
                (case (if t_map_addr t \<noteq> 0 \<and> t_map_addr t \<noteq> MAP_FAILED
                       then os_munmap os (t_map_addr t) (t_map_length t) else (None, os)) of
                   (Some rv, os) \<Rightarrow> (- errno_val rv, os, t)
                 | (None, os) \<Rightarrow>
                     (let t = (if t_map_addr t \<noteq> 0 \<and> t_map_addr t \<noteq> MAP_FAILED
                               then t\<lparr>t_map_addr := 0\<rparr> else t);
                          t = t\<lparr>t_map_length := 0\<rparr>;
                          t = (if t_name t \<noteq> None then t\<lparr>t_name := None\<rparr> else t)
                      in (0, os, t\<lparr>t_permissions := 0\<rparr>))))))"

text \<open>The last part of \<^verbatim>\<open>kstate_start_transaction\<close>, from the anonymous
  \<^verbatim>\<open>mmap\<close> to the end: the private copy is mapped read-write, filled from the
  shared mapping with \<^verbatim>\<open>memcpy\<close>, and made read-only for a read transaction.\<close>

definition start_local_copy ::
  "env \<Rightarrow> os \<Rightarrow> kstate_transaction \<Rightarrow> 32 word \<Rightarrow> fault + (int \<times> os \<times> kstate_transaction option)" where
  "start_local_copy ev os t permissions =
     (case os_mmap (e_mmap_anon ev) os (t_map_length t) True None of
        (Inl rv, os) \<Rightarrow>
          (let (_, os, t) = clear_transaction os (t\<lparr>t_map_addr := MAP_FAILED\<rparr>)
           in Inr (- errno_val rv, os, Some t))
      | (Inr a, os) \<Rightarrow>
          (let t = t\<lparr>t_map_addr := a\<rparr> in
             (case os_load os (t_state_map_addr t) (t_map_length t) of
                None \<Rightarrow> Inl BadAccess
              | Some live \<Rightarrow>
                  (case os_store os (t_map_addr t) live of
                     None \<Rightarrow> Inl BadAccess
                   | Some os \<Rightarrow>
                       if permissions AND KSTATE_WRITE = 0 then
                         (case os_mprotect (e_mprotect ev) os (t_map_addr t) (t_map_length t) False of
                            (Some rv, os) \<Rightarrow>
                              (let (_, os, t) = clear_transaction os t
                               in Inr (- errno_val rv, os, Some t))
                          | (None, os) \<Rightarrow> Inr (0, os, Some t))
                       else Inr (0, os, Some t)))))"

text \<open>The middle of \<^verbatim>\<open>kstate_start_transaction\<close>, from the assignment of
  \<^verbatim>\<open>transaction->permissions\<close> to the snapshot: the state's name and mapped length
  are copied, the shared object is opened again and mapped, and a write transaction
  takes its snapshot. \<open>state_name\<close> and \<open>state_map_length\<close> are \<^verbatim>\<open>state->name\<close>
  and \<^verbatim>\<open>state->map_length\<close>; \<open>permissions\<close> has \<^verbatim>\<open>KSTATE_READ\<close> added already.\<close>

definition start_shared_copy ::
  "env \<Rightarrow> os \<Rightarrow> kstate_transaction \<Rightarrow> string \<Rightarrow> nat \<Rightarrow> 32 word
     \<Rightarrow> fault + (int \<times> os \<times> kstate_transaction option)" where
  "start_shared_copy ev os t state_name state_map_length permissions =
     (let t = t\<lparr>t_permissions := permissions\<rparr> in
        if \<not> e_malloc ev then Inr (- errno_val ENOMEM, os, Some (t\<lparr>t_name := None\<rparr>))
        else
          (let t = t\<lparr>t_name := Some state_name, t_map_length := state_map_length\<rparr>;
               writing = (permissions AND KSTATE_WRITE \<noteq> 0)
           in
             (case os_shm_open (e_shm_open ev) os state_name writing False of
                (Inl rv, os) \<Rightarrow>
                  Inr (- errno_val rv, os, Some (t\<lparr>t_name := None, t_permissions := 0\<rparr>))
              | (Inr shm_fd, os) \<Rightarrow>
                  (case os_mmap (e_mmap ev) os (t_map_length t) writing (Some shm_fd) of
                     (Inl rv, os) \<Rightarrow>
                       (let (_, os, t) = clear_transaction os (t\<lparr>t_state_map_addr := MAP_FAILED\<rparr>)
                        in Inr (- errno_val rv, os_close os shm_fd, Some t))
                   | (Inr a, os) \<Rightarrow>
                       (let t = t\<lparr>t_state_map_addr := a\<rparr>;
                            os = os_close os shm_fd
                        in
                          if t_permissions t AND KSTATE_WRITE \<noteq> 0 then
                            (if \<not> e_malloc_copy ev then
                               (let (_, os, t) = clear_transaction os (t\<lparr>t_state_map_copy := None\<rparr>)
                                in Inr (- errno_val ENOMEM, os, Some t))
                             else
                               (case os_load os (t_state_map_addr t) (t_map_length t) of
                                  None \<Rightarrow> Inl BadAccess
                                | Some live \<Rightarrow>
                                    start_local_copy ev os
                                      (t\<lparr>t_state_map_copy := Some live\<rparr>) permissions))
                          else start_local_copy ev os t permissions)))))"

text \<open>\<^verbatim>\<open>kstate_start_transaction\<close>: the checks of the arguments, in the order of
  the source, then the two parts above.\<close>

definition kstate_start_transaction ::
  "env \<Rightarrow> os \<Rightarrow> kstate_transaction option \<Rightarrow> kstate_state option \<Rightarrow> 32 word
     \<Rightarrow> fault + (int \<times> os \<times> kstate_transaction option)" where
  "kstate_start_transaction ev os transaction state permissions =
     (case transaction of
        None \<Rightarrow> Inr (- errno_val EINVAL, os, None)
      | Some t \<Rightarrow>
     (case state of
        None \<Rightarrow> Inr (- errno_val EINVAL, os, transaction)
      | Some s \<Rightarrow>
          if kstate_transaction_is_active transaction then Inr (- errno_val EINVAL, os, transaction)
          else
     (case s_name s of
        None \<Rightarrow> Inr (- errno_val EINVAL, os, transaction)
      | Some state_name \<Rightarrow>
          if transaction_permissions_are_bad permissions then Inr (- errno_val EINVAL, os, transaction)
          else
            (let permissions = (if permissions AND KSTATE_READ = 0
                                then permissions OR KSTATE_READ else permissions)
             in
               if permissions AND KSTATE_WRITE \<noteq> 0 \<and> s_permissions s AND KSTATE_WRITE = 0
               then Inr (- errno_val EINVAL, os, transaction)
               else start_shared_copy ev os t state_name (s_map_length s) permissions))))"

definition kstate_abort_transaction ::
  "os \<Rightarrow> kstate_transaction option \<Rightarrow> int \<times> os \<times> kstate_transaction option" where
  "kstate_abort_transaction os transaction =
     (case transaction of
        None \<Rightarrow> (- errno_val EINVAL, os, None)
      | Some t \<Rightarrow>
          if \<not> kstate_transaction_is_active transaction then (- errno_val EINVAL, os, transaction)
          else (let (rv, os, t) = clear_transaction os t in (rv, os, Some t)))"

text \<open>\<^verbatim>\<open>kstate_commit_transaction\<close>. The first \<^verbatim>\<open>memcmp\<close> reads \<^verbatim>\<open>map_length\<close>
  bytes of the shared mapping and of the snapshot, the second of the shared mapping
  and of the private copy; \<^verbatim>\<open>memcmp\<close> is nonzero when the bytes differ.\<close>

definition kstate_commit_transaction ::
  "os \<Rightarrow> kstate_transaction option \<Rightarrow> fault + (int \<times> os \<times> kstate_transaction option)" where
  "kstate_commit_transaction os transaction =
     (case transaction of
        None \<Rightarrow> Inr (- errno_val EINVAL, os, None)
      | Some t \<Rightarrow>
          if \<not> kstate_transaction_is_active transaction then Inr (- errno_val EINVAL, os, transaction)
          else if t_permissions t AND KSTATE_WRITE = 0 then Inr (- errno_val EPERM, os, transaction)
          else
            (case (os_load os (t_state_map_addr t) (t_map_length t), t_state_map_copy t) of
               (Some live, Some copy) \<Rightarrow>
                 if length copy < t_map_length t then Inl BadAccess
                 else if live \<noteq> take (t_map_length t) copy then
                   (let retcode = - errno_val EPERM;
                        (rv, os, t) = clear_transaction os t
                    in Inr (if retcode \<noteq> 0 then retcode else rv, os, Some t))
                 else
                   (case os_load os (t_map_addr t) (t_map_length t) of
                      None \<Rightarrow> Inl BadAccess
                    | Some work \<Rightarrow>
                        if live \<noteq> work then
                          (case os_store os (t_state_map_addr t) work of
                             None \<Rightarrow> Inl BadAccess
                           | Some os \<Rightarrow>
                               (let retcode = 0;
                                    (rv, os, t) = clear_transaction os t
                                in Inr (if retcode \<noteq> 0 then retcode else rv, os, Some t)))
                        else
                          (let retcode = 0;
                               (rv, os, t) = clear_transaction os t
                           in Inr (if retcode \<noteq> 0 then retcode else rv, os, Some t)))
             | _ \<Rightarrow> Inl BadAccess))"

text \<open>\<^verbatim>\<open>kstate_free_transaction\<close>, with the address of the caller's handle variable
  as for \<^verbatim>\<open>kstate_free_state\<close>.\<close>

definition kstate_free_transaction ::
  "os \<Rightarrow> kstate_transaction option option \<Rightarrow> os \<times> kstate_transaction option option" where
  "kstate_free_transaction os transaction =
     (case transaction of
        None \<Rightarrow> (os, None)
      | Some None \<Rightarrow> (os, Some None)
      | Some (Some t) \<Rightarrow>
          (let os = (if kstate_transaction_is_active (Some t)
                     then fst (snd (kstate_abort_transaction os (Some t))) else os)
           in (os, Some None)))"

section \<open>Handles in place\<close>

text \<open>The predicates below describe the handles that the operations produce; they
  are what the theorems assume of a handle, and each is shown to hold after the
  operation that is meant to establish it.\<close>

definition writable :: "kstate_transaction \<Rightarrow> bool" where
  "writable t = (t_permissions t AND KSTATE_WRITE \<noteq> 0)"

text \<open>The struct after a \<^verbatim>\<open>clear_transaction\<close> that ran to its end, and the
  system after its two \<^verbatim>\<open>munmap\<close> calls.\<close>

definition cleared :: "kstate_transaction \<Rightarrow> kstate_transaction" where
  "cleared t = t\<lparr>t_state_map_copy := None, t_state_map_addr := 0, t_map_addr := 0,
                 t_map_length := 0, t_name := None, t_permissions := 0\<rparr>"

definition unmapped :: "os \<Rightarrow> kstate_transaction \<Rightarrow> os" where
  "unmapped os t = os\<lparr>vm := (vm os)(t_state_map_addr t := None, t_map_addr t := None)\<rparr>"

text \<open>The shared object that is mapped at an address, if one is.\<close>

definition shm_of :: "os \<Rightarrow> nat \<Rightarrow> nat option" where
  "shm_of os a =
     (case vm os a of
        None \<Rightarrow> None
      | Some m \<Rightarrow> (case m_backing m of Shm ob \<Rightarrow> Some ob | Anon bs \<Rightarrow> None))"

text \<open>An active transaction as a successful \<^verbatim>\<open>kstate_start_transaction\<close> leaves it:
  the shared object is mapped at \<open>t_state_map_addr\<close> over \<open>t_map_length\<close> bytes that
  exist, writable exactly for a write transaction; the private copy is mapped at
  \<open>t_map_addr\<close> with the same protection; a write transaction holds a snapshot of
  that length.\<close>

definition txn_ok :: "os \<Rightarrow> kstate_transaction \<Rightarrow> bool" where
  "txn_ok os t \<longleftrightarrow>
     t_name t \<noteq> None
     \<and> (t_permissions t = KSTATE_READ \<or> t_permissions t = KSTATE_READ OR KSTATE_WRITE)
     \<and> t_map_length t \<noteq> 0
     \<and> t_state_map_addr t \<noteq> 0 \<and> t_state_map_addr t \<noteq> MAP_FAILED
     \<and> t_state_map_addr t mod page_size os = 0
     \<and> t_map_addr t \<noteq> 0 \<and> t_map_addr t \<noteq> MAP_FAILED
     \<and> t_map_addr t mod page_size os = 0
     \<and> t_state_map_addr t \<noteq> t_map_addr t
     \<and> (case vm os (t_state_map_addr t) of
           None \<Rightarrow> False
         | Some m \<Rightarrow>
             m_length m = t_map_length t \<and> m_write m = writable t
             \<and> (case m_backing m of
                   Shm ob \<Rightarrow> ob < length (shm_obj os) \<and> t_map_length t \<le> length (shm_obj os ! ob)
                 | Anon bs \<Rightarrow> False))
     \<and> (case vm os (t_map_addr t) of
           None \<Rightarrow> False
         | Some m \<Rightarrow>
             m_length m = t_map_length t \<and> m_write m = writable t
             \<and> (case m_backing m of
                   Shm ob \<Rightarrow> False
                 | Anon bs \<Rightarrow> length bs = t_map_length t))
     \<and> (case t_state_map_copy t of
           None \<Rightarrow> \<not> writable t
         | Some c \<Rightarrow> \<not> writable t \<or> length c = t_map_length t)"


text \<open>A subscribed state as a successful \<^verbatim>\<open>kstate_subscribe_state\<close> leaves it: one
  page of a shared object is mapped read-only at \<open>s_map_addr\<close>.\<close>

definition state_ok :: "os \<Rightarrow> kstate_state \<Rightarrow> bool" where
  "state_ok os s \<longleftrightarrow>
     s_name s \<noteq> None
     \<and> (s_permissions s = KSTATE_READ \<or> s_permissions s = KSTATE_READ OR KSTATE_WRITE)
     \<and> s_map_length s = page_size os \<and> s_map_length s \<noteq> 0
     \<and> s_map_addr s \<noteq> 0 \<and> s_map_addr s \<noteq> MAP_FAILED
     \<and> s_map_addr s mod page_size os = 0
     \<and> (case vm os (s_map_addr s) of
           None \<Rightarrow> False
         | Some m \<Rightarrow>
             m_length m = s_map_length s \<and> \<not> m_write m
             \<and> (case m_backing m of Shm ob \<Rightarrow> True | Anon bs \<Rightarrow> False))"

text \<open>An unsubscribed state as \<^verbatim>\<open>kstate_new_state\<close> and
  \<^verbatim>\<open>kstate_unsubscribe_state\<close> leave it.\<close>

definition state_is_reset :: "kstate_state \<Rightarrow> bool" where
  "state_is_reset s \<longleftrightarrow>
     s_name s = None \<and> s_permissions s = 0 \<and> s_map_addr s = 0 \<and> s_map_length s = 0"

section \<open>A run of the library\<close>

text \<open>The first scenario of the specification, step by step: an empty system with
  pages of 4096 bytes, a new state subscribed to \<^verbatim>\<open>"Fred.A"\<close> for reading and
  writing, a write transaction started on it, and four bytes stored through the
  transaction's pointer. The theorems are applied to these handles.\<close>

definition ex_os0 :: os where
  "ex_os0 = \<lparr>page_size = 4096, shm_dir = Map.empty, shm_obj = [], fd_tab = Map.empty, vm = Map.empty\<rparr>"

definition ex_env1 :: env where
  "ex_env1 = \<lparr>e_malloc = True, e_malloc_copy = True, e_shm_open = Inr 3, e_ftruncate = None,
              e_mmap = Inr 4096, e_mmap_anon = Inr 8192, e_mprotect = None\<rparr>"

definition ex_env2 :: env where
  "ex_env2 = \<lparr>e_malloc = True, e_malloc_copy = True, e_shm_open = Inr 3, e_ftruncate = None,
              e_mmap = Inr 12288, e_mmap_anon = Inr 16384, e_mprotect = None\<rparr>"

definition ex_state0 :: kstate_state where
  "ex_state0 = \<lparr>s_name = None, s_permissions = 0, s_id = 1, s_map_addr = 0, s_map_length = 0\<rparr>"

definition ex_state :: kstate_state where
  "ex_state = \<lparr>s_name = Some ''/kstate.Fred.A'', s_permissions = 3, s_id = 1,
               s_map_addr = 4096, s_map_length = 4096\<rparr>"

definition ex_os1 :: os where
  "ex_os1 = \<lparr>page_size = 4096, shm_dir = [''/kstate.Fred.A'' \<mapsto> 0],
             shm_obj = [replicate 4096 0], fd_tab = Map.empty,
             vm = [4096 \<mapsto> \<lparr>m_backing = Shm 0, m_length = 4096, m_write = False\<rparr>]\<rparr>"

definition ex_txn0 :: kstate_transaction where
  "ex_txn0 = \<lparr>t_name = None, t_id = 1, t_permissions = 0, t_state_map_addr = 0,
              t_state_map_copy = None, t_map_addr = 0, t_map_length = 0\<rparr>"

definition ex_txn :: kstate_transaction where
  "ex_txn = \<lparr>t_name = Some ''/kstate.Fred.A'', t_id = 1, t_permissions = 3,
             t_state_map_addr = 12288, t_state_map_copy = Some (replicate 4096 0),
             t_map_addr = 16384, t_map_length = 4096\<rparr>"

definition ex_os2 :: os where
  "ex_os2 = \<lparr>page_size = 4096, shm_dir = [''/kstate.Fred.A'' \<mapsto> 0],
             shm_obj = [replicate 4096 0], fd_tab = Map.empty,
             vm = [4096 \<mapsto> \<lparr>m_backing = Shm 0, m_length = 4096, m_write = False\<rparr>,
                   12288 \<mapsto> \<lparr>m_backing = Shm 0, m_length = 4096, m_write = True\<rparr>,
                   16384 \<mapsto> \<lparr>m_backing = Anon (replicate 4096 0), m_length = 4096, m_write = True\<rparr>]\<rparr>"

definition ex_os3 :: os where
  "ex_os3 = \<lparr>page_size = 4096, shm_dir = [''/kstate.Fred.A'' \<mapsto> 0],
             shm_obj = [replicate 4096 0], fd_tab = Map.empty,
             vm = [4096 \<mapsto> \<lparr>m_backing = Shm 0, m_length = 4096, m_write = False\<rparr>,
                   12288 \<mapsto> \<lparr>m_backing = Shm 0, m_length = 4096, m_write = True\<rparr>,
                   16384 \<mapsto> \<lparr>m_backing = Anon ([0x78, 0x56, 0x34, 0x12] @ replicate 4092 0),
                            m_length = 4096, m_write = True\<rparr>]\<rparr>"

text \<open>The same run with a read transaction instead.\<close>

definition ex_txn_ro :: kstate_transaction where
  "ex_txn_ro = \<lparr>t_name = Some ''/kstate.Fred.A'', t_id = 1, t_permissions = 1,
                t_state_map_addr = 12288, t_state_map_copy = None,
                t_map_addr = 16384, t_map_length = 4096\<rparr>"

definition ex_os_ro :: os where
  "ex_os_ro = \<lparr>page_size = 4096, shm_dir = [''/kstate.Fred.A'' \<mapsto> 0],
               shm_obj = [replicate 4096 0], fd_tab = Map.empty,
               vm = [4096 \<mapsto> \<lparr>m_backing = Shm 0, m_length = 4096, m_write = False\<rparr>,
                     12288 \<mapsto> \<lparr>m_backing = Shm 0, m_length = 4096, m_write = False\<rparr>,
                     16384 \<mapsto> \<lparr>m_backing = Anon (replicate 4096 0), m_length = 4096, m_write = False\<rparr>]\<rparr>"



text \<open>The subscription of the run when the kernel refuses the mapping with
  \<^verbatim>\<open>ENOMEM\<close>, and the system that this leaves.\<close>

definition ex_env_fail :: env where
  "ex_env_fail = \<lparr>e_malloc = True, e_malloc_copy = True, e_shm_open = Inr 3, e_ftruncate = None,
                  e_mmap = Inl ENOMEM, e_mmap_anon = Inr 8192, e_mprotect = None\<rparr>"

definition ex_os_leak :: os where
  "ex_os_leak = \<lparr>page_size = 4096, shm_dir = [''/kstate.Fred.A'' \<mapsto> 0],
                 shm_obj = [replicate 4096 0], fd_tab = [3 \<mapsto> (0, True)], vm = Map.empty\<rparr>"

section \<open>Lives of handles\<close>

text \<open>What the specification's universal invariants say of a handle: the four
  observers agree on whether it is bound.\<close>

definition state_observers_agree :: "kstate_state option \<Rightarrow> bool" where
  "state_observers_agree S \<longleftrightarrow>
     (kstate_state_is_subscribed S \<longleftrightarrow> kstate_get_state_name S \<noteq> None)
     \<and> (kstate_state_is_subscribed S \<longleftrightarrow> kstate_get_state_ptr S \<noteq> 0)
     \<and> (kstate_state_is_subscribed S \<longleftrightarrow> kstate_get_state_permissions S \<noteq> 0)"

definition transaction_observers_agree :: "kstate_transaction option \<Rightarrow> bool" where
  "transaction_observers_agree T \<longleftrightarrow>
     (kstate_transaction_is_active T \<longleftrightarrow> kstate_get_transaction_name T \<noteq> None)
     \<and> (kstate_transaction_is_active T \<longleftrightarrow> kstate_get_transaction_ptr T \<noteq> 0)
     \<and> (kstate_transaction_is_active T \<longleftrightarrow> kstate_get_transaction_permissions T \<noteq> 0)"

text \<open>The handles a program can hold. A state handle comes from
  \<^verbatim>\<open>kstate_new_state\<close>, called with memory available and with the static counter at
  some value other than 0 (it starts at 1 and skips 0), and is then passed to
  \<^verbatim>\<open>kstate_subscribe_state\<close>, \<^verbatim>\<open>kstate_unsubscribe_state\<close> and
  \<^verbatim>\<open>kstate_free_state\<close> any number of times, in any system and with any arguments
  and answers of the kernel. \<open>state_life i S\<close>: the handle created with id \<open>i\<close> is now
  \<open>S\<close> (the caller's variable, so \<open>None\<close> after the free). Likewise for
  transactions; a call that ends in a fault ends the program and leaves no handle.\<close>

inductive state_life :: "32 word \<Rightarrow> kstate_state option \<Rightarrow> bool" where
  new: "next_state_id \<noteq> 0 \<Longrightarrow> kstate_new_state True next_state_id = Inr (S, n')
        \<Longrightarrow> state_life next_state_id S"
| subscribe: "state_life i S \<Longrightarrow> kstate_subscribe_state ev os S name permissions = (r, os', S')
        \<Longrightarrow> state_life i S'"
| unsubscribe: "state_life i S \<Longrightarrow> kstate_unsubscribe_state os S = (os', S')
        \<Longrightarrow> state_life i S'"
| free: "state_life i S \<Longrightarrow> kstate_free_state os (Some S) = (os', Some S')
        \<Longrightarrow> state_life i S'"

inductive transaction_life :: "32 word \<Rightarrow> kstate_transaction option \<Rightarrow> bool" where
  new: "next_transaction_id \<noteq> 0
        \<Longrightarrow> kstate_new_transaction True next_transaction_id = Inr (T, n')
        \<Longrightarrow> transaction_life next_transaction_id T"
| start: "transaction_life i T
        \<Longrightarrow> kstate_start_transaction ev os T S permissions = Inr (r, os', T')
        \<Longrightarrow> transaction_life i T'"
| commit: "transaction_life i T \<Longrightarrow> kstate_commit_transaction os T = Inr (r, os', T')
        \<Longrightarrow> transaction_life i T'"
| abort: "transaction_life i T \<Longrightarrow> kstate_abort_transaction os T = (r, os', T')
        \<Longrightarrow> transaction_life i T'"
| free: "transaction_life i T \<Longrightarrow> kstate_free_transaction os (Some T) = (os', Some T')
        \<Longrightarrow> transaction_life i T'"

section \<open>Observers as operations\<close>

text \<open>The observers as operations. Above, an observer is the value it returns, as a
  function of the handle. Here each one is embedded once more in the style of the
  operations that write: it takes the system and the handle and returns its result
  with the system and the handle as the call leaves them, or a fault. The bodies
  follow the source statement by statement: \<^verbatim>\<open>state != NULL && state->name\<close> reads
  the name only when the pointer is not NULL; an accessor first calls
  \<^verbatim>\<open>kstate_state_is_subscribed\<close> (or \<^verbatim>\<open>kstate_transaction_is_active\<close>), goes on with
  what that call left, and then reads one field through the pointer, which is a fault
  when the pointer is NULL.\<close>

definition kstate_state_is_subscribed_call ::
  "os \<Rightarrow> kstate_state option \<Rightarrow> fault + (bool \<times> os \<times> kstate_state option)" where
  "kstate_state_is_subscribed_call os state =
     (case state of
        None \<Rightarrow> Inr (False, os, state)
      | Some s \<Rightarrow> Inr (s_name s \<noteq> None, os, state))"

definition kstate_transaction_is_active_call ::
  "os \<Rightarrow> kstate_transaction option \<Rightarrow> fault + (bool \<times> os \<times> kstate_transaction option)" where
  "kstate_transaction_is_active_call os transaction =
     (case transaction of
        None \<Rightarrow> Inr (False, os, transaction)
      | Some t \<Rightarrow> Inr (t_name t \<noteq> None, os, transaction))"

definition kstate_get_state_name_call ::
  "os \<Rightarrow> kstate_state option \<Rightarrow> fault + (string option \<times> os \<times> kstate_state option)" where
  "kstate_get_state_name_call os state =
     (case kstate_state_is_subscribed_call os state of
        Inl f \<Rightarrow> Inl f
      | Inr (subscribed, os, state) \<Rightarrow>
          if subscribed then
            (case state of
               None \<Rightarrow> Inl BadAccess
             | Some s \<Rightarrow>
                 (case s_name s of
                    None \<Rightarrow> Inl BadAccess
                  | Some nm \<Rightarrow> Inr (Some (drop KSTATE_NAME_PREFIX_LEN nm), os, state)))
          else Inr (None, os, state))"

definition kstate_get_transaction_name_call ::
  "os \<Rightarrow> kstate_transaction option
     \<Rightarrow> fault + (string option \<times> os \<times> kstate_transaction option)" where
  "kstate_get_transaction_name_call os transaction =
     (case kstate_transaction_is_active_call os transaction of
        Inl f \<Rightarrow> Inl f
      | Inr (active, os, transaction) \<Rightarrow>
          if active then
            (case transaction of
               None \<Rightarrow> Inl BadAccess
             | Some t \<Rightarrow>
                 (case t_name t of
                    None \<Rightarrow> Inl BadAccess
                  | Some nm \<Rightarrow> Inr (Some (drop KSTATE_NAME_PREFIX_LEN nm), os, transaction)))
          else Inr (None, os, transaction))"

definition kstate_get_state_permissions_call ::
  "os \<Rightarrow> kstate_state option \<Rightarrow> fault + (32 word \<times> os \<times> kstate_state option)" where
  "kstate_get_state_permissions_call os state =
     (case kstate_state_is_subscribed_call os state of
        Inl f \<Rightarrow> Inl f
      | Inr (subscribed, os, state) \<Rightarrow>
          if subscribed then
            (case state of
               None \<Rightarrow> Inl BadAccess
             | Some s \<Rightarrow> Inr (s_permissions s, os, state))
          else Inr (0, os, state))"

definition kstate_get_transaction_permissions_call ::
  "os \<Rightarrow> kstate_transaction option
     \<Rightarrow> fault + (32 word \<times> os \<times> kstate_transaction option)" where
  "kstate_get_transaction_permissions_call os transaction =
     (case kstate_transaction_is_active_call os transaction of
        Inl f \<Rightarrow> Inl f
      | Inr (active, os, transaction) \<Rightarrow>
          if active then
            (case transaction of
               None \<Rightarrow> Inl BadAccess
             | Some t \<Rightarrow> Inr (t_permissions t, os, transaction))
          else Inr (0, os, transaction))"

definition kstate_get_state_id_call ::
  "os \<Rightarrow> kstate_state option \<Rightarrow> fault + (32 word \<times> os \<times> kstate_state option)" where
  "kstate_get_state_id_call os state =
     (case kstate_state_is_subscribed_call os state of
        Inl f \<Rightarrow> Inl f
      | Inr (subscribed, os, state) \<Rightarrow>
          if subscribed then
            (case state of
               None \<Rightarrow> Inl BadAccess
             | Some s \<Rightarrow> Inr (s_id s, os, state))
          else Inr (0, os, state))"

definition kstate_get_transaction_id_call ::
  "os \<Rightarrow> kstate_transaction option
     \<Rightarrow> fault + (32 word \<times> os \<times> kstate_transaction option)" where
  "kstate_get_transaction_id_call os transaction =
     (case kstate_transaction_is_active_call os transaction of
        Inl f \<Rightarrow> Inl f
      | Inr (active, os, transaction) \<Rightarrow>
          if active then
            (case transaction of
               None \<Rightarrow> Inl BadAccess
             | Some t \<Rightarrow> Inr (t_id t, os, transaction))
          else Inr (0, os, transaction))"

definition kstate_get_state_ptr_call ::
  "os \<Rightarrow> kstate_state option \<Rightarrow> fault + (nat \<times> os \<times> kstate_state option)" where
  "kstate_get_state_ptr_call os state =
     (case kstate_state_is_subscribed_call os state of
        Inl f \<Rightarrow> Inl f
      | Inr (subscribed, os, state) \<Rightarrow>
          if subscribed then
            (case state of
               None \<Rightarrow> Inl BadAccess
             | Some s \<Rightarrow> Inr (s_map_addr s, os, state))
          else Inr (0, os, state))"

definition kstate_get_transaction_ptr_call ::
  "os \<Rightarrow> kstate_transaction option
     \<Rightarrow> fault + (nat \<times> os \<times> kstate_transaction option)" where
  "kstate_get_transaction_ptr_call os transaction =
     (case kstate_transaction_is_active_call os transaction of
        Inl f \<Rightarrow> Inl f
      | Inr (active, os, transaction) \<Rightarrow>
          if active then
            (case transaction of
               None \<Rightarrow> Inl BadAccess
             | Some t \<Rightarrow> Inr (t_map_addr t, os, transaction))
          else Inr (0, os, transaction))"

text \<open>Two calls of an operation in a row: the second call is made in the system and
  on the handle that the first one left. The result is both return values with the
  system and the handle after the second call, or the fault of the call that
  faulted.\<close>

definition twice ::
  "(os \<Rightarrow> 'h \<Rightarrow> fault + ('a \<times> os \<times> 'h)) \<Rightarrow> os \<Rightarrow> 'h \<Rightarrow> fault + ('a \<times> 'a \<times> os \<times> 'h)" where
  "twice f os h =
     (case f os h of
        Inl e \<Rightarrow> Inl e
      | Inr (r1, os1, h1) \<Rightarrow>
          (case f os1 h1 of
             Inl e \<Rightarrow> Inl e
           | Inr (r2, os2, h2) \<Rightarrow> Inr (r1, r2, os2, h2)))"

section \<open>Properties\<close>

subsection \<open>The primitives and the steps of the operations\<close>

lemma clear_transaction_ok:
  assumes "t_map_length t \<noteq> 0"
    and "t_state_map_addr t mod page_size os = 0" and "t_map_addr t mod page_size os = 0"
    and "t_state_map_addr t \<noteq> 0" and "t_state_map_addr t \<noteq> MAP_FAILED"
    and "t_map_addr t \<noteq> 0" and "t_map_addr t \<noteq> MAP_FAILED"
  shows "clear_transaction os t = (0, unmapped os t, cleared t)"
  using assms
  by (simp add: clear_transaction_def os_munmap_def cleared_def unmapped_def Let_def)

lemma txn_ok_clear:
  "txn_ok os t \<Longrightarrow> clear_transaction os t = (0, unmapped os t, cleared t)"
  by (rule clear_transaction_ok) (simp_all add: txn_ok_def)

lemma txn_ok_live:
  assumes "txn_ok os t"
  obtains ob where "shm_of os (t_state_map_addr t) = Some ob"
    and "ob < length (shm_obj os)" and "t_map_length t \<le> length (shm_obj os ! ob)"
    and "os_load os (t_state_map_addr t) (t_map_length t) = Some (take (t_map_length t) (shm_obj os ! ob))"
  using assms
  by (auto simp: txn_ok_def shm_of_def os_load_def split: option.splits backing.splits)

lemma txn_ok_work:
  assumes "txn_ok os t"
  obtains bs where "vm os (t_map_addr t) = Some \<lparr>m_backing = Anon bs, m_length = t_map_length t, m_write = writable t\<rparr>"
    and "length bs = t_map_length t"
    and "os_load os (t_map_addr t) (t_map_length t) = Some bs"
proof -
  from assms obtain m where m: "vm os (t_map_addr t) = Some m" "m_length m = t_map_length t" "m_write m = writable t"
    by (auto simp: txn_ok_def split: option.splits)
  with assms obtain bs where bs: "m_backing m = Anon bs" "length bs = t_map_length t"
    by (auto simp: txn_ok_def split: backing.splits)
  have "m = \<lparr>m_backing = Anon bs, m_length = t_map_length t, m_write = writable t\<rparr>"
    using m bs by (cases m) simp
  moreover have "os_load os (t_map_addr t) (t_map_length t) = Some bs"
    using m bs by (simp add: os_load_def)
  ultimately show ?thesis using that m bs by simp
qed

lemma txn_ok_store_live:
  assumes "txn_ok os t" and "writable t" and "shm_of os (t_state_map_addr t) = Some ob"
    and "length w = t_map_length t"
  shows "os_store os (t_state_map_addr t) w
         = Some (os\<lparr>shm_obj := (shm_obj os)[ob := w @ drop (t_map_length t) (shm_obj os ! ob)]\<rparr>)"
  using assms
  by (auto simp: txn_ok_def shm_of_def os_store_def split: option.splits backing.splits)

lemma commit_writable:
  assumes ok: "txn_ok os t" and w: "writable t"
  shows "\<exists>ob snap work.
           shm_of os (t_state_map_addr t) = Some ob
         \<and> t_state_map_copy t = Some snap
         \<and> os_load os (t_map_addr t) (t_map_length t) = Some work
         \<and> kstate_commit_transaction os (Some t) =
             Inr (if take (t_map_length t) (shm_obj os ! ob) = snap then 0 else - errno_val EPERM,
                  unmapped (if take (t_map_length t) (shm_obj os ! ob) = snap
                               \<and> work \<noteq> take (t_map_length t) (shm_obj os ! ob)
                            then os\<lparr>shm_obj := (shm_obj os)[ob := work @ drop (t_map_length t) (shm_obj os ! ob)]\<rparr>
                            else os) t,
                  Some (cleared t))"
proof -
  from ok obtain ob where ob: "shm_of os (t_state_map_addr t) = Some ob"
    "ob < length (shm_obj os)" "t_map_length t \<le> length (shm_obj os ! ob)"
    "os_load os (t_state_map_addr t) (t_map_length t) = Some (take (t_map_length t) (shm_obj os ! ob))"
    by (rule txn_ok_live)
  from ok obtain work where work:
    "length work = t_map_length t" "os_load os (t_map_addr t) (t_map_length t) = Some work"
    by (rule txn_ok_work)
  from ok w obtain snap where snap: "t_state_map_copy t = Some snap" "length snap = t_map_length t"
    by (auto simp: txn_ok_def split: option.splits)
  have act: "kstate_transaction_is_active (Some t)"
    using ok by (simp add: txn_ok_def kstate_transaction_is_active_def)
  have wr: "t_permissions t AND KSTATE_WRITE \<noteq> 0"
    using w by (simp add: writable_def)
  let ?os1 = "os\<lparr>shm_obj := (shm_obj os)[ob := work @ drop (t_map_length t) (shm_obj os ! ob)]\<rparr>"
  have st: "os_store os (t_state_map_addr t) work = Some ?os1"
    using ok w ob(1) work(1) by (rule txn_ok_store_live)
  have c0: "clear_transaction os t = (0, unmapped os t, cleared t)"
    using ok by (rule txn_ok_clear)
  have c1: "clear_transaction ?os1 t = (0, unmapped ?os1 t, cleared t)"
    by (rule clear_transaction_ok) (use ok in \<open>simp_all add: txn_ok_def\<close>)
  have "kstate_commit_transaction os (Some t) =
             Inr (if take (t_map_length t) (shm_obj os ! ob) = snap then 0 else - errno_val EPERM,
                  unmapped (if take (t_map_length t) (shm_obj os ! ob) = snap
                               \<and> work \<noteq> take (t_map_length t) (shm_obj os ! ob)
                            then ?os1 else os) t,
                  Some (cleared t))"
    using act wr ob(4) work snap st c0 c1
    by (simp add: kstate_commit_transaction_def)
  with ob(1) snap(1) work(2) show ?thesis by blast
qed


lemma os_mmap_Inl: "os_mmap k os len wr src = (Inl e, os') \<Longrightarrow> os' = os"
  by (auto simp: os_mmap_def split: sum.splits if_splits option.splits prod.splits)

lemma os_mmap_anon_Inr:
  assumes "os_mmap k os len wr None = (Inr a, os')"
  shows "len \<noteq> 0" "a \<noteq> 0" "a \<noteq> MAP_FAILED" "a mod page_size os = 0" "vm os a = None"
    "os' = os\<lparr>vm := (vm os)(a \<mapsto> \<lparr>m_backing = Anon (replicate len 0), m_length = len, m_write = wr\<rparr>)\<rparr>"
  using assms
  by (auto simp: os_mmap_def split: sum.splits if_splits)

lemma os_mmap_shared_Inr:
  assumes "os_mmap k os len wr (Some fd) = (Inr a, os')"
  obtains ob rdwr where "fd_tab os fd = Some (ob, rdwr)"
    "len \<noteq> 0" "a \<noteq> 0" "a \<noteq> MAP_FAILED" "a mod page_size os = 0" "vm os a = None"
    "os' = os\<lparr>vm := (vm os)(a \<mapsto> \<lparr>m_backing = Shm ob, m_length = len, m_write = wr\<rparr>)\<rparr>"
  using assms
  by (auto simp: os_mmap_def split: sum.splits if_splits option.splits)

lemma os_shm_open_Inl: "os_shm_open k os nm rdwr creat = (Inl e, os') \<Longrightarrow> os' = os"
  by (auto simp: os_shm_open_def split: sum.splits if_splits option.splits)



lemma os_close_simps [simp]:
  "page_size (os_close os fd) = page_size os"
  "vm (os_close os fd) = vm os"
  "shm_obj (os_close os fd) = shm_obj os"
  "shm_dir (os_close os fd) = shm_dir os"
  by (simp_all add: os_close_def)




lemma perms_cases:
  assumes "(p :: 32 word) AND NOT (KSTATE_READ OR KSTATE_WRITE) = 0"
  shows "p = 0 \<or> p = 1 \<or> p = 2 \<or> p = 3"
proof -
  have m: "(3 :: 32 word) = mask 2" by (simp add: mask_eq_exp_minus_1)
  have "p = (p AND mask 2) OR (p AND NOT (mask 2))"
    by (rule bit_eqI) (auto simp: bit_simps)
  with assms have "p AND mask 2 = p" by (simp add: m KSTATE_READ_def KSTATE_WRITE_def)
  then have "uint p < 4" by (simp add: mask_eq_iff)
  moreover have "0 \<le> uint p" by simp
  ultimately have "uint p = 0 \<or> uint p = 1 \<or> uint p = 2 \<or> uint p = 3" by arith
  then have "uint p = uint (0 :: 32 word) \<or> uint p = uint (1 :: 32 word)
     \<or> uint p = uint (2 :: 32 word) \<or> uint p = uint (3 :: 32 word)"
    by simp
  then show ?thesis by (blast dest: word_uint_eqI)
qed

lemma transaction_permissions_cases:
  "\<not> transaction_permissions_are_bad p \<Longrightarrow> p = 1 \<or> p = 2 \<or> p = 3"
  using perms_cases [of p] by (auto simp: transaction_permissions_are_bad_def split: if_splits)

lemma state_permissions_cases:
  "\<not> state_permissions_are_bad p \<Longrightarrow> p = 1 \<or> p = 2 \<or> p = 3"
  using perms_cases [of p] by (auto simp: state_permissions_are_bad_def split: if_splits)

lemma errno_val_pos [simp]: "0 < errno_val e"
  by (cases e) simp_all

lemma errno_val_neq0 [simp]: "errno_val e \<noteq> 0"
  by (cases e) simp_all





lemma os_ftruncate_facts:
  assumes "os_ftruncate k os fd len = (r, os')"
  shows "page_size os' = page_size os" "vm os' = vm os" "shm_dir os' = shm_dir os" "fd_tab os' = fd_tab os"
    "r \<noteq> None \<Longrightarrow> os' = os"
  using assms
  by (auto simp: os_ftruncate_def split: option.splits if_splits prod.splits)

lemma os_shm_open_dir:
  assumes "os_shm_open k os nm rdwr creat = (r, os')"
  shows "shm_dir os n = Some ob \<Longrightarrow> shm_dir os' n = Some ob"
    "page_size os' = page_size os" "vm os' = vm os"
  using assms
  by (auto simp: os_shm_open_def split: sum.splits option.splits if_splits)

lemma subscribe_mapping_ok:
  assumes res: "subscribe_mapping ev os s nm p = (0, os', S')"
    and p13: "p = 1 \<or> p = 3"
  obtains s' where "S' = Some s'" "state_ok os' s'" "s_id s' = s_id s" "s_name s' = Some nm"
    "s_permissions s' = p" "vm os (s_map_addr s') = None" "page_size os' = page_size os"
    "\<forall>b. b \<noteq> s_map_addr s' \<longrightarrow> vm os' b = vm os b"
proof -
  obtain r1 os1 where so: "os_shm_open (e_shm_open ev) os nm (p AND KSTATE_WRITE \<noteq> 0) (p AND KSTATE_WRITE \<noteq> 0) = (r1, os1)"
    by (cases "os_shm_open (e_shm_open ev) os nm (p AND KSTATE_WRITE \<noteq> 0) (p AND KSTATE_WRITE \<noteq> 0)")
  from res so obtain fd where r1: "r1 = Inr fd"
    by (cases r1) (simp_all add: subscribe_mapping_def Let_def)
  note o1 = os_shm_open_dir(2,3) [OF so]
  obtain r2 os2 where ft: "(if p AND KSTATE_WRITE \<noteq> 0 then os_ftruncate (e_ftruncate ev) os1 fd (page_size os1)
                    else (None, os1)) = (r2, os2)"
    by (cases "(if p AND KSTATE_WRITE \<noteq> 0 then os_ftruncate (e_ftruncate ev) os1 fd (page_size os1)
                    else (None, os1))")
  from res so r1 ft have r2: "r2 = None"
    by (cases r2) (simp_all add: subscribe_mapping_def Let_def)
  have o2: "page_size os2 = page_size os" "vm os2 = vm os"
    using ft o1 by (auto split: if_splits dest: os_ftruncate_facts)
  obtain r3 os3 where mm: "os_mmap (e_mmap ev) os2 (page_size os2) False (Some fd) = (r3, os3)"
    by (cases "os_mmap (e_mmap ev) os2 (page_size os2) False (Some fd)")
  from res so r1 ft r2 mm obtain a where r3: "r3 = Inr a"
    by (cases r3) (simp_all add: subscribe_mapping_def Let_def)
  from mm [unfolded r3] obtain ob rdwr where a:
    "page_size os2 \<noteq> 0" "a \<noteq> 0" "a \<noteq> MAP_FAILED" "a mod page_size os2 = 0" "vm os2 a = None"
    "os3 = os2\<lparr>vm := (vm os2)(a \<mapsto> \<lparr>m_backing = Shm ob, m_length = page_size os2, m_write = False\<rparr>)\<rparr>"
    by (rule os_mmap_shared_Inr)
  let ?s' = "s\<lparr>s_name := Some nm, s_permissions := p, s_map_length := page_size os2, s_map_addr := a\<rparr>"
  from res so r1 ft r2 mm r3 have fin: "S' = Some ?s'" "os' = os_close os3 fd"
    by (simp_all add: subscribe_mapping_def Let_def)
  have "state_ok os' ?s'"
    using p13 a fin(2) by (auto simp: state_ok_def KSTATE_READ_def KSTATE_WRITE_def)
  with fin a o2 show ?thesis
    by (intro that [of ?s']) simp_all
qed

lemma subscribe_mapping_fail:
  assumes res: "subscribe_mapping ev os s nm p = (r, os', S')" and nz: "r \<noteq> 0"
  shows "(\<exists>e. r = - errno_val e)
    \<and> (S' = Some (s\<lparr>s_name := None, s_permissions := 0\<rparr>)
     \<or> S' = Some (s\<lparr>s_name := None, s_permissions := 0, s_map_addr := 0, s_map_length := 0\<rparr>))
    \<and> vm os' = vm os \<and> page_size os' = page_size os
    \<and> (\<forall>n ob. shm_dir os n = Some ob \<longrightarrow> shm_dir os' n = Some ob)"
proof -
  obtain r1 os1 where so: "os_shm_open (e_shm_open ev) os nm (p AND KSTATE_WRITE \<noteq> 0) (p AND KSTATE_WRITE \<noteq> 0) = (r1, os1)"
    by (cases "os_shm_open (e_shm_open ev) os nm (p AND KSTATE_WRITE \<noteq> 0) (p AND KSTATE_WRITE \<noteq> 0)")
  note o1 = os_shm_open_dir [OF so]
  show ?thesis
  proof (cases r1)
    case (Inl e)
    with res so have "r = - errno_val e" "os' = os1" "S' = Some (s\<lparr>s_name := None, s_permissions := 0\<rparr>)"
      by (simp_all add: subscribe_mapping_def Let_def)
    with o1 show ?thesis by auto
  next
    case (Inr fd)
    obtain r2 os2 where ft: "(if p AND KSTATE_WRITE \<noteq> 0 then os_ftruncate (e_ftruncate ev) os1 fd (page_size os1)
                    else (None, os1)) = (r2, os2)"
      by (cases "(if p AND KSTATE_WRITE \<noteq> 0 then os_ftruncate (e_ftruncate ev) os1 fd (page_size os1)
                    else (None, os1))")
    have o2: "page_size os2 = page_size os1" "vm os2 = vm os1" "shm_dir os2 = shm_dir os1"
      using ft by (auto split: if_splits dest: os_ftruncate_facts)
    show ?thesis
    proof (cases r2)
      case (Some e)
      with res so Inr ft have "r = - errno_val e" "os' = os2" "S' = Some (s\<lparr>s_name := None, s_permissions := 0\<rparr>)"
        by (simp_all add: subscribe_mapping_def Let_def)
      with o1 o2 show ?thesis by auto
    next
      case None
      obtain r3 os3 where mm: "os_mmap (e_mmap ev) os2 (page_size os2) False (Some fd) = (r3, os3)"
        by (cases "os_mmap (e_mmap ev) os2 (page_size os2) False (Some fd)")
      show ?thesis
      proof (cases r3)
        case (Inl e)
        with mm have "os3 = os2" by (auto dest: os_mmap_Inl)
        moreover from res so Inr ft None mm Inl have "r = - errno_val e" "os' = os3"
          "S' = Some (s\<lparr>s_name := None, s_permissions := 0, s_map_addr := 0, s_map_length := 0\<rparr>)"
          by (simp_all add: subscribe_mapping_def Let_def)
        ultimately show ?thesis using o1 o2 by auto
      next
        case (Inr a)
        with res so \<open>r1 = Inr fd\<close> ft None mm have "r = 0"
          by (simp add: subscribe_mapping_def Let_def)
        with nz show ?thesis by simp
      qed
    qed
  qed
qed

subsection \<open>Name validation\<close>

text \<open>The names that \<^verbatim>\<open>check_state_name\<close> accepts are the names the rules allow,
  less those with a dot at index 2.\<close>

lemma name_loop_scan: "name_loop nm ii d = name_scan (drop ii nm) ii d"
proof (induction nm ii d rule: name_loop.induct)
  case (1 name ii dot_at)
  show ?case
  proof (cases "ii < length name")
    case True
    then have d: "drop ii name = name ! ii # drop (ii + 1) name"
      by (simp add: Cons_nth_drop_Suc)
    show ?thesis
      using True "1.IH" by (subst name_loop.simps) (simp add: d)
  next
    case False
    then show ?thesis by (subst name_loop.simps) simp
  qed
qed

lemma to_size_t_eq:
  assumes "0 \<le> a" "a < 2 ^ 64" "0 \<le> b" "b < 2 ^ 64"
  shows "to_size_t a = to_size_t b \<longleftrightarrow> a = b"
  using assms by (simp add: to_size_t_def)

lemma to_size_t_minus1: "to_size_t (- 1) = 2 ^ 64 - 1"
  by (simp add: to_size_t_def)

lemma dot_pos_simps [simp]:
  "dot_pos [] = 0"
  "dot_pos (c # cs) = (if c = CHR ''.'' then 0 else Suc (dot_pos cs))"
  by (simp_all add: dot_pos_def)

lemma dot_pos_le: "dot_pos cs \<le> length cs"
  by (simp add: dot_pos_def length_takeWhile_le)

lemma name_scan_iff:
  assumes "ii + length cs < 2 ^ 63"
  shows "name_scan cs ii d \<longleftrightarrow>
           list_all (\<lambda>c. isalnum c \<or> c = CHR ''.'') cs
         \<and> \<not> adjacent_dots cs
         \<and> (dot_pos cs < length cs \<longrightarrow> to_size_t d \<noteq> to_size_t (int (ii + dot_pos cs) - 1))"
  using assms
proof (induction cs arbitrary: ii d)
  case Nil
  then show ?case by simp
next
  case (Cons c cs)
  from Cons.prems have b: "(ii + 1) + length cs < 2 ^ 63" by simp
  note IH = Cons.IH [OF b]
  show ?case
  proof (cases "c = CHR ''.''")
    case True
    have adj: "adjacent_dots (c # cs) \<longleftrightarrow> (cs \<noteq> [] \<and> hd cs = CHR ''.'') \<or> adjacent_dots cs"
      using True by (cases cs) auto
    have first: "(dot_pos cs < length cs \<longrightarrow>
          to_size_t (int ii) \<noteq> to_size_t (int (ii + 1 + dot_pos cs) - 1))
        \<longleftrightarrow> \<not> (cs \<noteq> [] \<and> hd cs = CHR ''.'')"
    proof (cases cs)
      case Nil
      then show ?thesis by simp
    next
      case (Cons e es)
      have le: "dot_pos es \<le> length es" by (rule dot_pos_le)
      have "to_size_t (int ii) = to_size_t (int (ii + 1 + k) - 1) \<longleftrightarrow> k = 0" if "k \<le> length cs" for k
      proof -
        have "int (ii + 1 + k) - 1 = int (ii + k)" by simp
        moreover have "int ii < 2 ^ 64" "int (ii + k) < 2 ^ 64"
          using b that by simp_all
        ultimately show ?thesis
          by (simp add: to_size_t_eq)
      qed
      from this [of "dot_pos cs"] dot_pos_le [of cs] Cons show ?thesis
        by (auto split: if_splits)
    qed
    show ?thesis
      using True IH [of "int ii"] adj first by auto
  next
    case False
    have adj: "adjacent_dots (c # cs) \<longleftrightarrow> adjacent_dots cs"
      using False by (cases cs) auto
    show ?thesis
      using False IH [of d] adj by auto
  qed
qed


lemma dot_pos_two:
  assumes "nm \<noteq> []" "hd nm \<noteq> CHR ''.''" "\<not> adjacent_dots nm"
  shows "(dot_pos nm < length nm \<and> dot_pos nm = 2) \<longleftrightarrow> (2 < length nm \<and> nm ! 2 = CHR ''.'')"
proof (cases nm)
  case Nil
  with assms show ?thesis by simp
next
  case a: (Cons a as)
  show ?thesis
  proof (cases as)
    case Nil
    with a assms show ?thesis by simp
  next
    case b: (Cons b bs)
    show ?thesis
    proof (cases bs)
      case Nil
      with a b assms show ?thesis by simp
    next
      case (Cons c cs)
      with a b assms show ?thesis by auto
    qed
  qed
qed

lemma check_state_name_iff:
  "check_state_name (Some nm) \<noteq> 0
   \<longleftrightarrow> name_allowed nm \<and> \<not> (2 < length nm \<and> nm ! 2 = CHR ''.'')"
proof (cases "nm = [] \<or> 254 < length nm")
  case True
  then show ?thesis
    by (auto simp: check_state_name_def name_allowed_def KSTATE_MAX_NAME_LEN_def NAME_MAX_def Let_def)
next
  case False
  then have ne: "nm \<noteq> []" and len: "length nm \<le> 254" by auto
  have hd: "nm ! 0 = hd nm" using ne by (simp add: hd_conv_nth)
  have last: "nm ! (length nm - Suc 0) = last nm" using ne by (simp add: last_conv_nth)
  have b: "0 + length nm < (2 :: nat) ^ 63" using len by simp
  have scan: "name_loop nm 0 1 \<longleftrightarrow>
        list_all (\<lambda>c. isalnum c \<or> c = CHR ''.'') nm \<and> \<not> adjacent_dots nm
        \<and> \<not> (dot_pos nm < length nm \<and> dot_pos nm = 2)"
  proof -
    have "to_size_t 1 = to_size_t (int k - 1) \<longleftrightarrow> k = 2" if "k \<le> 254" for k
    proof (cases k)
      case 0
      then show ?thesis by (simp add: to_size_t_def)
    next
      case (Suc m)
      with that show ?thesis by (simp add: to_size_t_def)
    qed
    moreover have "dot_pos nm \<le> 254" using dot_pos_le [of nm] len by simp
    ultimately show ?thesis
      using name_scan_iff [OF b, of 1] by (auto simp: name_loop_scan)
  qed
  have chk: "check_state_name (Some nm) \<noteq> 0 \<longleftrightarrow>
      hd nm \<noteq> CHR ''.'' \<and> last nm \<noteq> CHR ''.'' \<and> name_loop nm 0 1"
    using ne len
    by (auto simp: check_state_name_def KSTATE_MAX_NAME_LEN_def NAME_MAX_def Let_def hd last)
  show ?thesis
  proof (cases "hd nm \<noteq> CHR ''.'' \<and> \<not> adjacent_dots nm")
    case True
    with dot_pos_two [OF ne] chk scan ne len show ?thesis
      by (auto simp: name_allowed_def)
  next
    case False
    with chk scan show ?thesis by (auto simp: name_allowed_def)
  qed
qed

lemma check_state_name_sound:
  "\<exists>nm. name = Some nm \<and> name_allowed nm" if "check_state_name name \<noteq> 0"
proof (cases name)
  case None
  with that show ?thesis by (simp add: check_state_name_def)
next
  case (Some nm)
  with that check_state_name_iff [of nm] show ?thesis by simp
qed

lemma subscribe_rejected_name:
  assumes "check_state_name name = 0" and "\<not> kstate_state_is_subscribed (Some s)"
    and "\<not> state_permissions_are_bad permissions"
  shows "kstate_subscribe_state ev os (Some s) name permissions = (- errno_val EINVAL, os, Some s)"
  using assms
  by (cases name) (simp_all add: kstate_subscribe_state_def new_state_name_def)

text \<open>
  Claim C2, at a name the rules allow. \<^verbatim>\<open>"ab.c"\<close> is nonempty, short, made of
  letters and one dot, does not begin or end with a dot and has no two dots side by
  side. \<^verbatim>\<open>check_state_name\<close> answers 0 for it, and \<^verbatim>\<open>kstate_subscribe_state\<close> on a
  fresh handle with read and write permission returns \<^verbatim>\<open>-EINVAL\<close>, whatever the
  system would have answered: \<^verbatim>\<open>dot_at\<close> starts at 1, so a dot at index 2 is taken
  for the second of two adjacent dots.
\<close>

theorem check_state_name_rejects_allowed_name:
  "name_allowed ''ab.c''
   \<and> check_state_name (Some ''ab.c'') = 0
   \<and> fst (kstate_subscribe_state ev os
            (Some \<lparr>s_name = None, s_permissions = 0, s_id = i, s_map_addr = 0, s_map_length = 0\<rparr>)
            (Some ''ab.c'') (KSTATE_READ OR KSTATE_WRITE)) = - 22"
proof -
  have allowed: "name_allowed ''ab.c''"
    by (simp add: name_allowed_def isalnum_def)
  have rejected: "check_state_name (Some ''ab.c'') = 0"
    by (simp add: check_state_name_def KSTATE_MAX_NAME_LEN_def NAME_MAX_def
        name_loop.simps to_size_t_def isalnum_def)
  have "new_state_name (e_malloc ev) (Some ''ab.c'') = Inl (- 22)"
    by (simp add: new_state_name_def rejected)
  then have "fst (kstate_subscribe_state ev os
            (Some \<lparr>s_name = None, s_permissions = 0, s_id = i, s_map_addr = 0, s_map_length = 0\<rparr>)
            (Some ''ab.c'') (KSTATE_READ OR KSTATE_WRITE)) = - 22"
    by (simp add: kstate_subscribe_state_def kstate_state_is_subscribed_def
        state_permissions_are_bad_def KSTATE_READ_def KSTATE_WRITE_def)
  with allowed rejected show ?thesis by simp
qed

subsection \<open>The run\<close>

lemma ex_new_state: "kstate_new_state True 1 = Inr (Some ex_state0, 2)"
  by (simp add: kstate_new_state_def ex_state0_def)

lemma ex_new_transaction: "kstate_new_transaction True 1 = Inr (Some ex_txn0, 2)"
  by (simp add: kstate_new_transaction_def ex_txn0_def)

lemma ex_check_name: "check_state_name (Some ''Fred.A'') = 6"
  by (simp add: check_state_name_def KSTATE_MAX_NAME_LEN_def NAME_MAX_def
      name_loop.simps to_size_t_def isalnum_def)

lemma ex_subscribe:
  "kstate_subscribe_state ex_env1 ex_os0 (Some ex_state0) (Some ''Fred.A'') (KSTATE_READ OR KSTATE_WRITE)
   = (0, ex_os1, Some ex_state)"
  by (simp add: kstate_subscribe_state_def kstate_state_is_subscribed_def
      state_permissions_are_bad_def new_state_name_def ex_check_name KSTATE_NAME_PREFIX_def
      subscribe_mapping_def os_shm_open_def os_ftruncate_def os_mmap_def os_close_def resize_def
      MAP_FAILED_def KSTATE_READ_def KSTATE_WRITE_def
      ex_env1_def ex_os0_def ex_state0_def ex_os1_def ex_state_def)

lemma ex_start:
  "kstate_start_transaction ex_env2 ex_os1 (Some ex_txn0) (Some ex_state) KSTATE_WRITE
   = Inr (0, ex_os2, Some ex_txn)"
  by (simp add: kstate_start_transaction_def kstate_transaction_is_active_def
      transaction_permissions_are_bad_def start_shared_copy_def start_local_copy_def
      os_shm_open_def os_mmap_def os_close_def os_load_def os_store_def
      MAP_FAILED_def KSTATE_READ_def KSTATE_WRITE_def
      ex_env2_def ex_os1_def ex_txn0_def ex_os2_def ex_state_def ex_txn_def)

lemma ex_txn_ok: "txn_ok ex_os2 ex_txn"
  by (simp add: txn_ok_def ex_os2_def ex_txn_def writable_def MAP_FAILED_def
      KSTATE_READ_def KSTATE_WRITE_def)

lemma ex_store:
  "os_store ex_os2 (kstate_get_transaction_ptr (Some ex_txn)) [0x78, 0x56, 0x34, 0x12] = Some ex_os3"
  by (simp add: os_store_def kstate_get_transaction_ptr_def kstate_transaction_is_active_def
      ex_os2_def ex_txn_def ex_os3_def)

lemma ex_txn_ok3: "txn_ok ex_os3 ex_txn"
  by (simp add: txn_ok_def ex_os3_def ex_txn_def writable_def MAP_FAILED_def
      KSTATE_READ_def KSTATE_WRITE_def)

lemma ex_txn_writable: "writable ex_txn"
  by (simp add: writable_def ex_txn_def KSTATE_WRITE_def)

lemma Cons_neq_replicate: "x \<noteq> y \<Longrightarrow> x # xs \<noteq> replicate n y"
  by (cases n) auto

subsection \<open>Commit\<close>

text \<open>
  Claim C1. A write transaction that is active and in place (\<open>txn_ok\<close>, which every
  successful \<^verbatim>\<open>kstate_start_transaction\<close> establishes: lemma \<open>start_ok\<close>) is committed. Let
  \<open>live\<close> be the bytes of the shared region, \<open>snap\<close> the snapshot and \<open>work\<close> the
  private copy. If \<open>live\<close> differs from \<open>snap\<close>, \<^verbatim>\<open>kstate_commit_transaction\<close>
  returns \<^verbatim>\<open>-EPERM\<close>; if they are equal it returns 0. In both cases the transaction
  is inactive afterwards and its two mappings are gone. The shared object is written
  exactly when \<open>live = snap\<close> and \<open>work\<close> differs from \<open>live\<close>, and then its first
  \<open>t_map_length\<close> bytes become \<open>work\<close>; otherwise no object changes.
\<close>

theorem commit_of_writable_transaction:
  assumes "txn_ok os t" and "writable t"
  shows "\<exists>ob live snap work os' t'.
           shm_of os (t_state_map_addr t) = Some ob
         \<and> os_load os (t_state_map_addr t) (t_map_length t) = Some live
         \<and> t_state_map_copy t = Some snap
         \<and> os_load os (t_map_addr t) (t_map_length t) = Some work
         \<and> kstate_commit_transaction os (Some t)
             = Inr (if live = snap then 0 else - errno_val EPERM, os', Some t')
         \<and> \<not> kstate_transaction_is_active (Some t')
         \<and> vm os' (t_state_map_addr t) = None \<and> vm os' (t_map_addr t) = None
         \<and> shm_obj os' = (if live = snap \<and> work \<noteq> live
                           then (shm_obj os)[ob := work @ drop (t_map_length t) (shm_obj os ! ob)]
                           else shm_obj os)"
proof -
  from commit_writable [OF assms] obtain ob snap work where c:
    "shm_of os (t_state_map_addr t) = Some ob" "t_state_map_copy t = Some snap"
    "os_load os (t_map_addr t) (t_map_length t) = Some work"
    "kstate_commit_transaction os (Some t) =
       Inr (if take (t_map_length t) (shm_obj os ! ob) = snap then 0 else - errno_val EPERM,
            unmapped (if take (t_map_length t) (shm_obj os ! ob) = snap
                         \<and> work \<noteq> take (t_map_length t) (shm_obj os ! ob)
                      then os\<lparr>shm_obj := (shm_obj os)[ob := work @ drop (t_map_length t) (shm_obj os ! ob)]\<rparr>
                      else os) t,
            Some (cleared t))"
    by blast
  from assms(1) obtain ob' where l:
    "shm_of os (t_state_map_addr t) = Some ob'"
    "os_load os (t_state_map_addr t) (t_map_length t) = Some (take (t_map_length t) (shm_obj os ! ob'))"
    by (rule txn_ok_live)
  with c(1) have live: "os_load os (t_state_map_addr t) (t_map_length t)
      = Some (take (t_map_length t) (shm_obj os ! ob))" by simp
  have inact: "\<not> kstate_transaction_is_active (Some (cleared t))"
    by (simp add: kstate_transaction_is_active_def cleared_def)
  let ?live = "take (t_map_length t) (shm_obj os ! ob)"
  let ?pub = "os\<lparr>shm_obj := (shm_obj os)[ob := work @ drop (t_map_length t) (shm_obj os ! ob)]\<rparr>"
  consider (conflict) "?live \<noteq> snap" | (same) "?live = snap" "work = ?live"
    | (publish) "?live = snap" "work \<noteq> ?live"
    by blast
  then show ?thesis
  proof cases
    case conflict
    with c(4) have "kstate_commit_transaction os (Some t)
        = Inr (- errno_val EPERM, unmapped os t, Some (cleared t))" by simp
    with conflict c(1-3) live inact show ?thesis
      by (intro exI [of _ ob] exI [of _ ?live] exI [of _ snap] exI [of _ work]
          exI [of _ "unmapped os t"] exI [of _ "cleared t"]) (simp add: unmapped_def)
  next
    case same
    with c(4) have "kstate_commit_transaction os (Some t)
        = Inr (0, unmapped os t, Some (cleared t))" by simp
    with same c(1-3) live inact show ?thesis
      by (intro exI [of _ ob] exI [of _ ?live] exI [of _ snap] exI [of _ work]
          exI [of _ "unmapped os t"] exI [of _ "cleared t"]) (simp add: unmapped_def)
  next
    case publish
    with c(4) have "kstate_commit_transaction os (Some t)
        = Inr (0, unmapped ?pub t, Some (cleared t))" by simp
    with publish c(1-3) live inact show ?thesis
      by (intro exI [of _ ob] exI [of _ ?live] exI [of _ snap] exI [of _ work]
          exI [of _ "unmapped ?pub t"] exI [of _ "cleared t"]) (simp add: unmapped_def)
  qed
qed

text \<open>The theorem at the transaction of the run, after the four bytes were stored: the
  commit returns 0 and the object holds the bytes.\<close>

theorem commit_of_writable_transaction_witness:
  "txn_ok ex_os3 ex_txn \<and> writable ex_txn
   \<and> (\<exists>os' t'. kstate_commit_transaction ex_os3 (Some ex_txn) = Inr (0, os', Some t')
        \<and> \<not> kstate_transaction_is_active (Some t')
        \<and> shm_obj os' = [[0x78, 0x56, 0x34, 0x12] @ replicate 4092 0])"
proof -
  from commit_of_writable_transaction [OF ex_txn_ok3 ex_txn_writable]
  obtain ob live snap work os' t' where c:
    "shm_of ex_os3 (t_state_map_addr ex_txn) = Some ob"
    "os_load ex_os3 (t_state_map_addr ex_txn) (t_map_length ex_txn) = Some live"
    "t_state_map_copy ex_txn = Some snap"
    "os_load ex_os3 (t_map_addr ex_txn) (t_map_length ex_txn) = Some work"
    "kstate_commit_transaction ex_os3 (Some ex_txn)
       = Inr (if live = snap then 0 else - errno_val EPERM, os', Some t')"
    "\<not> kstate_transaction_is_active (Some t')"
    "shm_obj os' = (if live = snap \<and> work \<noteq> live
                     then (shm_obj ex_os3)[ob := work @ drop (t_map_length ex_txn) (shm_obj ex_os3 ! ob)]
                     else shm_obj ex_os3)"
    by blast
  from c(1) have ob: "ob = 0" by (simp add: shm_of_def ex_os3_def ex_txn_def)
  from c(2) have live: "live = replicate 4096 0" by (auto simp: os_load_def ex_os3_def ex_txn_def)
  from c(3) have snap: "snap = replicate 4096 0" by (simp add: ex_txn_def)
  from c(4) have work: "work = [0x78, 0x56, 0x34, 0x12] @ replicate 4092 0"
    by (auto simp: os_load_def ex_os3_def ex_txn_def)
  have ne: "work \<noteq> live" by (simp add: work live Cons_neq_replicate)
  from c(5) live snap have "kstate_commit_transaction ex_os3 (Some ex_txn) = Inr (0, os', Some t')"
    by simp
  moreover from c(7) ne live snap ob work have "shm_obj os' = [[0x78, 0x56, 0x34, 0x12] @ replicate 4092 0]"
    by (simp add: ex_os3_def ex_txn_def)
  ultimately show ?thesis using ex_txn_ok3 ex_txn_writable c(6) by blast
qed

lemma ex_start_ro:
  "kstate_start_transaction ex_env2 ex_os1 (Some ex_txn0) (Some ex_state) KSTATE_READ
   = Inr (0, ex_os_ro, Some ex_txn_ro)"
  by (simp add: kstate_start_transaction_def kstate_transaction_is_active_def
      transaction_permissions_are_bad_def start_shared_copy_def start_local_copy_def
      os_shm_open_def os_mmap_def os_close_def os_load_def os_store_def os_mprotect_def
      MAP_FAILED_def KSTATE_READ_def KSTATE_WRITE_def
      ex_env2_def ex_os1_def ex_txn0_def ex_os_ro_def ex_state_def ex_txn_ro_def)

lemma ex_txn_ro_ok: "txn_ok ex_os_ro ex_txn_ro"
  by (simp add: txn_ok_def ex_os_ro_def ex_txn_ro_def writable_def MAP_FAILED_def
      KSTATE_READ_def KSTATE_WRITE_def)

lemma ex_txn_ro_not_writable: "\<not> writable ex_txn_ro"
  by (simp add: writable_def ex_txn_ro_def KSTATE_WRITE_def)

lemma txn_ok_active: "txn_ok os t \<Longrightarrow> kstate_transaction_is_active (Some t)"
  by (simp add: txn_ok_def kstate_transaction_is_active_def)

lemma cleared_inactive [simp]: "\<not> kstate_transaction_is_active (Some (cleared t))"
  by (simp add: kstate_transaction_is_active_def cleared_def)

lemma abort_ok:
  "txn_ok os t \<Longrightarrow> kstate_abort_transaction os (Some t) = (0, unmapped os t, Some (cleared t))"
  by (simp add: kstate_abort_transaction_def txn_ok_active txn_ok_clear)

lemma commit_read_only:
  "txn_ok os t \<Longrightarrow> \<not> writable t
   \<Longrightarrow> kstate_commit_transaction os (Some t) = Inr (- errno_val EPERM, os, Some t)"
  by (simp add: kstate_commit_transaction_def txn_ok_active writable_def)

lemma commit_inactive:
  "\<not> kstate_transaction_is_active T
   \<Longrightarrow> kstate_commit_transaction os T = Inr (- errno_val EINVAL, os, T)"
  by (cases T) (simp_all add: kstate_commit_transaction_def)

lemma abort_inactive:
  "\<not> kstate_transaction_is_active T
   \<Longrightarrow> kstate_abort_transaction os T = (- errno_val EINVAL, os, T)"
  by (cases T) (simp_all add: kstate_abort_transaction_def)

lemma commit_writable_result:
  assumes "txn_ok os t" and "writable t"
  obtains r os' where "kstate_commit_transaction os (Some t) = Inr (r, os', Some (cleared t))"
  using commit_writable [OF assms] by blast

text \<open>
  Claim C4. A read transaction that is active and in place: \<^verbatim>\<open>kstate_commit_transaction\<close>
  returns \<^verbatim>\<open>-EPERM\<close> and gives back the system and the transaction as they were, so
  the transaction is still active and no field, mapping or buffer has changed; an
  abort of it then returns 0 and leaves it inactive.
\<close>

theorem commit_of_read_only_transaction:
  assumes "txn_ok os t" and "\<not> writable t"
  shows "kstate_commit_transaction os (Some t) = Inr (- errno_val EPERM, os, Some t)
         \<and> kstate_transaction_is_active (Some t)
         \<and> fst (kstate_abort_transaction os (Some t)) = 0
         \<and> \<not> kstate_transaction_is_active (snd (snd (kstate_abort_transaction os (Some t))))"
  using assms by (simp add: commit_read_only txn_ok_active abort_ok)

text \<open>The theorem at the read transaction of the run.\<close>

theorem commit_of_read_only_transaction_witness:
  "txn_ok ex_os_ro ex_txn_ro \<and> \<not> writable ex_txn_ro
   \<and> kstate_commit_transaction ex_os_ro (Some ex_txn_ro) = Inr (- 1, ex_os_ro, Some ex_txn_ro)
   \<and> kstate_transaction_is_active (Some ex_txn_ro)
   \<and> fst (kstate_abort_transaction ex_os_ro (Some ex_txn_ro)) = 0"
  using commit_of_read_only_transaction [OF ex_txn_ro_ok ex_txn_ro_not_writable]
    ex_txn_ro_ok ex_txn_ro_not_writable
  by simp

text \<open>
  Claim C5. On a handle that is NULL or not active, \<^verbatim>\<open>kstate_commit_transaction\<close> and
  \<^verbatim>\<open>kstate_abort_transaction\<close> return \<^verbatim>\<open>-EINVAL\<close> and give back the system and the
  handle unchanged. A transaction fresh from \<^verbatim>\<open>kstate_new_transaction\<close> is such a
  handle; so is a transaction after an abort, and a write transaction after a commit:
  the second abort or commit returns \<^verbatim>\<open>-EINVAL\<close>.
\<close>

theorem commit_and_abort_of_inactive_transaction:
  "(\<not> kstate_transaction_is_active T \<longrightarrow>
      kstate_commit_transaction os T = Inr (- errno_val EINVAL, os, T)
      \<and> kstate_abort_transaction os T = (- errno_val EINVAL, os, T))
   \<and> (kstate_new_transaction True n = Inr (T0, n') \<longrightarrow>
      kstate_commit_transaction os T0 = Inr (- errno_val EINVAL, os, T0)
      \<and> kstate_abort_transaction os T0 = (- errno_val EINVAL, os, T0))
   \<and> (txn_ok os t \<longrightarrow>
        (\<exists>os1 T1. kstate_abort_transaction os (Some t) = (0, os1, T1)
           \<and> kstate_abort_transaction os1 T1 = (- errno_val EINVAL, os1, T1)
           \<and> kstate_commit_transaction os1 T1 = Inr (- errno_val EINVAL, os1, T1)))
   \<and> (txn_ok os t \<and> writable t \<longrightarrow>
        (\<exists>r os1 T1. kstate_commit_transaction os (Some t) = Inr (r, os1, T1)
           \<and> kstate_commit_transaction os1 T1 = Inr (- errno_val EINVAL, os1, T1)
           \<and> kstate_abort_transaction os1 T1 = (- errno_val EINVAL, os1, T1)))"
proof (intro conjI impI)
  assume "\<not> kstate_transaction_is_active T"
  then show "kstate_commit_transaction os T = Inr (- errno_val EINVAL, os, T)"
    and "kstate_abort_transaction os T = (- errno_val EINVAL, os, T)"
    by (rule commit_inactive, rule abort_inactive)
next
  assume "kstate_new_transaction True n = Inr (T0, n')"
  then have "\<not> kstate_transaction_is_active T0"
    by (auto simp: kstate_new_transaction_def kstate_transaction_is_active_def Let_def)
  then show "kstate_commit_transaction os T0 = Inr (- errno_val EINVAL, os, T0)"
    and "kstate_abort_transaction os T0 = (- errno_val EINVAL, os, T0)"
    by (rule commit_inactive, rule abort_inactive)
next
  assume "txn_ok os t"
  then have "kstate_abort_transaction os (Some t) = (0, unmapped os t, Some (cleared t))"
    by (rule abort_ok)
  then show "\<exists>os1 T1. kstate_abort_transaction os (Some t) = (0, os1, T1)
           \<and> kstate_abort_transaction os1 T1 = (- errno_val EINVAL, os1, T1)
           \<and> kstate_commit_transaction os1 T1 = Inr (- errno_val EINVAL, os1, T1)"
    by (simp add: commit_inactive abort_inactive)
next
  assume "txn_ok os t \<and> writable t"
  then obtain r os' where "kstate_commit_transaction os (Some t) = Inr (r, os', Some (cleared t))"
    by (blast elim: commit_writable_result)
  then show "\<exists>r os1 T1. kstate_commit_transaction os (Some t) = Inr (r, os1, T1)
           \<and> kstate_commit_transaction os1 T1 = Inr (- errno_val EINVAL, os1, T1)
           \<and> kstate_abort_transaction os1 T1 = (- errno_val EINVAL, os1, T1)"
    by (simp add: commit_inactive abort_inactive)
qed

text \<open>The theorem at the NULL handle, at the new transaction of the run and at its
  started write transaction.\<close>

theorem commit_and_abort_of_inactive_transaction_witness:
  "\<not> kstate_transaction_is_active None
   \<and> kstate_commit_transaction ex_os3 None = Inr (- 22, ex_os3, None)
   \<and> kstate_abort_transaction ex_os3 None = (- 22, ex_os3, None)
   \<and> kstate_new_transaction True 1 = Inr (Some ex_txn0, 2)
   \<and> kstate_commit_transaction ex_os3 (Some ex_txn0) = Inr (- 22, ex_os3, Some ex_txn0)
   \<and> kstate_abort_transaction ex_os3 (Some ex_txn0) = (- 22, ex_os3, Some ex_txn0)
   \<and> txn_ok ex_os3 ex_txn \<and> writable ex_txn
   \<and> (\<exists>os1 T1. kstate_abort_transaction ex_os3 (Some ex_txn) = (0, os1, T1)
         \<and> kstate_abort_transaction os1 T1 = (- 22, os1, T1)
         \<and> kstate_commit_transaction os1 T1 = Inr (- 22, os1, T1))
   \<and> (\<exists>r os1 T1. kstate_commit_transaction ex_os3 (Some ex_txn) = Inr (r, os1, T1)
         \<and> kstate_commit_transaction os1 T1 = Inr (- 22, os1, T1)
         \<and> kstate_abort_transaction os1 T1 = (- 22, os1, T1))"
proof -
  have a: "\<not> kstate_transaction_is_active None"
    by (simp add: kstate_transaction_is_active_def)
  note w1 = commit_and_abort_of_inactive_transaction
    [where T = None and os = ex_os3 and n = 1 and ?T0.0 = "Some ex_txn0" and n' = 2 and t = ex_txn]
  show ?thesis
    using w1 a ex_new_transaction ex_txn_ok3 ex_txn_writable by simp
qed

subsection \<open>A transaction and the state it was started on\<close>












subsection \<open>A subscription that fails\<close>

lemma ex_subscribe_fail:
  "kstate_subscribe_state ex_env_fail ex_os0 (Some ex_state0) (Some ''Fred.A'') (KSTATE_READ OR KSTATE_WRITE)
   = (- 12, ex_os_leak, Some ex_state0)"
  by (simp add: kstate_subscribe_state_def kstate_state_is_subscribed_def
      state_permissions_are_bad_def new_state_name_def ex_check_name KSTATE_NAME_PREFIX_def
      subscribe_mapping_def os_shm_open_def os_ftruncate_def os_mmap_def os_close_def resize_def
      MAP_FAILED_def KSTATE_READ_def KSTATE_WRITE_def
      ex_env_fail_def ex_os0_def ex_state0_def ex_os_leak_def)

lemma subscribe_mapping_fail_step:
  assumes res: "subscribe_mapping ev os s nm p = (r, os', S')" and nz: "r \<noteq> 0"
  shows "(\<exists>e os1. os_shm_open (e_shm_open ev) os nm (p AND KSTATE_WRITE \<noteq> 0) (p AND KSTATE_WRITE \<noteq> 0)
                  = (Inl e, os1) \<and> r = - errno_val e)
    \<or> (\<exists>fd os1 e os2. os_shm_open (e_shm_open ev) os nm (p AND KSTATE_WRITE \<noteq> 0) (p AND KSTATE_WRITE \<noteq> 0)
                  = (Inr fd, os1)
          \<and> p AND KSTATE_WRITE \<noteq> 0
          \<and> os_ftruncate (e_ftruncate ev) os1 fd (page_size os1) = (Some e, os2) \<and> r = - errno_val e
          \<and> shm_dir os' nm \<noteq> None)
    \<or> (\<exists>fd os1 os2 e os3. os_shm_open (e_shm_open ev) os nm (p AND KSTATE_WRITE \<noteq> 0) (p AND KSTATE_WRITE \<noteq> 0)
                  = (Inr fd, os1)
          \<and> (if p AND KSTATE_WRITE \<noteq> 0 then os_ftruncate (e_ftruncate ev) os1 fd (page_size os1)
              else (None, os1)) = (None, os2)
          \<and> os_mmap (e_mmap ev) os2 (page_size os2) False (Some fd) = (Inl e, os3) \<and> r = - errno_val e
          \<and> shm_dir os' nm \<noteq> None)"
proof -
  obtain r1 os1 where so: "os_shm_open (e_shm_open ev) os nm (p AND KSTATE_WRITE \<noteq> 0) (p AND KSTATE_WRITE \<noteq> 0) = (r1, os1)"
    by (cases "os_shm_open (e_shm_open ev) os nm (p AND KSTATE_WRITE \<noteq> 0) (p AND KSTATE_WRITE \<noteq> 0)")
  show ?thesis
  proof (cases r1)
    case (Inl e)
    with res so have "r = - errno_val e"
      by (simp add: subscribe_mapping_def Let_def)
    with so Inl show ?thesis by simp
  next
    case (Inr fd)
    from so Inr have d1: "shm_dir os1 nm \<noteq> None"
      by (auto simp: os_shm_open_def split: sum.splits option.splits if_splits)
    obtain r2 os2 where ft: "(if p AND KSTATE_WRITE \<noteq> 0 then os_ftruncate (e_ftruncate ev) os1 fd (page_size os1)
                    else (None, os1)) = (r2, os2)"
      by (cases "(if p AND KSTATE_WRITE \<noteq> 0 then os_ftruncate (e_ftruncate ev) os1 fd (page_size os1)
                    else (None, os1))")
    show ?thesis
    proof (cases r2)
      case (Some e)
      with res so Inr ft have "r = - errno_val e" "os' = os2"
        by (simp_all add: subscribe_mapping_def Let_def)
      moreover from ft Some have "p AND KSTATE_WRITE \<noteq> 0"
        "os_ftruncate (e_ftruncate ev) os1 fd (page_size os1) = (Some e, os2)"
        by (auto split: if_splits)
      moreover from this(2) d1 have "shm_dir os2 nm \<noteq> None"
        by (simp add: os_ftruncate_facts(3))
      ultimately show ?thesis using so Inr by simp
    next
      case None
      obtain r3 os3 where mm: "os_mmap (e_mmap ev) os2 (page_size os2) False (Some fd) = (r3, os3)"
        by (cases "os_mmap (e_mmap ev) os2 (page_size os2) False (Some fd)")
      show ?thesis
      proof (cases r3)
        case (Inl e)
        with res so \<open>r1 = Inr fd\<close> ft None mm have "r = - errno_val e" "os' = os3"
          by (simp_all add: subscribe_mapping_def Let_def)
        moreover from mm Inl have "os3 = os2" by (auto dest: os_mmap_Inl)
        moreover from ft d1 have "shm_dir os2 nm \<noteq> None"
          by (auto split: if_splits simp: os_ftruncate_facts(3))
        ultimately show ?thesis using so \<open>r1 = Inr fd\<close> ft None mm Inl by simp
      next
        case (Inr a)
        with res so \<open>r1 = Inr fd\<close> ft None mm have "r = 0"
          by (simp add: subscribe_mapping_def Let_def)
        with nz show ?thesis by simp
      qed
    qed
  qed
qed

lemma ex_state0_reset: "state_is_reset ex_state0"
  by (simp add: state_is_reset_def ex_state0_def)

text \<open>
  Claim C3 as stated, at the run: a new state subscribes to \<^verbatim>\<open>"Fred.A"\<close> for reading
  and writing in an empty system, and \<^verbatim>\<open>mmap\<close> fails with \<^verbatim>\<open>ENOMEM\<close>. The call returns
  \<^verbatim>\<open>-ENOMEM\<close> and the handle is as before, but descriptor 3, which \<^verbatim>\<open>shm_open\<close>
  returned, is still open, and the object that \<^verbatim>\<open>shm_open\<close> created and
  \<^verbatim>\<open>ftruncate\<close> sized is still in the name space: not every resource acquired up to
  the failure has been released.
\<close>

theorem failed_subscribe_keeps_descriptor_and_object:
  "kstate_subscribe_state ex_env_fail ex_os0 (Some ex_state0) (Some ''Fred.A'') (KSTATE_READ OR KSTATE_WRITE)
     = (- errno_val ENOMEM, ex_os_leak, Some ex_state0)
   \<and> fd_tab ex_os0 3 = None \<and> fd_tab ex_os_leak 3 = Some (0, True)
   \<and> shm_dir ex_os0 ''/kstate.Fred.A'' = None \<and> shm_dir ex_os_leak ''/kstate.Fred.A'' = Some 0
   \<and> shm_obj ex_os0 = [] \<and> shm_obj ex_os_leak = [replicate 4096 0]"
  using ex_subscribe_fail by (simp add: ex_os0_def ex_os_leak_def)

text \<open>
  Claim C3 as amended. A handle in the unsubscribed state subscribes with permissions
  and a name that pass the checks, and the call returns a nonzero value. Then the
  value is negative, and it is the negated \<^verbatim>\<open>errno\<close> of the call that failed:
  \<^verbatim>\<open>shm_open\<close>, or \<^verbatim>\<open>ftruncate\<close> when the object is being created, or \<^verbatim>\<open>mmap\<close>.
  The handle is given back in the unsubscribed state (it equals the handle before:
  name NULL, permissions 0, no mapping), all four observers say so, the mappings of
  the process are those from before the call, and no name has left the name space;
  when \<^verbatim>\<open>ftruncate\<close> or \<^verbatim>\<open>mmap\<close> failed, the object is still there under its name
  (the source notes that it does not unlink it). Nothing is said about the descriptor.
\<close>

theorem failed_subscribe_resets_handle:
  assumes reset: "state_is_reset s"
    and perms: "\<not> state_permissions_are_bad permissions"
    and name: "new_state_name (e_malloc ev) name = Inr nm"
    and res: "kstate_subscribe_state ev os (Some s) name permissions = (r, os', S')"
    and nz: "r \<noteq> 0"
  shows "r < 0
    \<and> ((\<exists>e os1. os_shm_open (e_shm_open ev) os nm (permissions AND KSTATE_WRITE \<noteq> 0) (permissions AND KSTATE_WRITE \<noteq> 0)
                  = (Inl e, os1) \<and> r = - errno_val e)
      \<or> (\<exists>fd os1 e os2. os_shm_open (e_shm_open ev) os nm (permissions AND KSTATE_WRITE \<noteq> 0) (permissions AND KSTATE_WRITE \<noteq> 0)
                  = (Inr fd, os1)
          \<and> permissions AND KSTATE_WRITE \<noteq> 0
          \<and> os_ftruncate (e_ftruncate ev) os1 fd (page_size os1) = (Some e, os2) \<and> r = - errno_val e
          \<and> shm_dir os' nm \<noteq> None)
      \<or> (\<exists>fd os1 os2 e os3. os_shm_open (e_shm_open ev) os nm (permissions AND KSTATE_WRITE \<noteq> 0) (permissions AND KSTATE_WRITE \<noteq> 0)
                  = (Inr fd, os1)
          \<and> (if permissions AND KSTATE_WRITE \<noteq> 0 then os_ftruncate (e_ftruncate ev) os1 fd (page_size os1)
              else (None, os1)) = (None, os2)
          \<and> os_mmap (e_mmap ev) os2 (page_size os2) False (Some fd) = (Inl e, os3) \<and> r = - errno_val e
          \<and> shm_dir os' nm \<noteq> None))
    \<and> S' = Some s
    \<and> \<not> kstate_state_is_subscribed S'
    \<and> kstate_get_state_name S' = None
    \<and> kstate_get_state_permissions S' = 0
    \<and> kstate_get_state_ptr S' = 0
    \<and> vm os' = vm os
    \<and> (\<forall>n ob. shm_dir os n = Some ob \<longrightarrow> shm_dir os' n = Some ob)"
proof -
  define p where "p = (if permissions AND KSTATE_READ = 0 then permissions OR KSTATE_READ else permissions)"
  have pw: "(p AND KSTATE_WRITE \<noteq> 0) = (permissions AND KSTATE_WRITE \<noteq> 0)"
    using state_permissions_cases [OF perms]
    by (auto simp: p_def KSTATE_READ_def KSTATE_WRITE_def)
  from reset have unsub: "\<not> kstate_state_is_subscribed (Some s)"
    by (simp add: state_is_reset_def kstate_state_is_subscribed_def)
  from res unsub perms name have sm: "subscribe_mapping ev os s nm p = (r, os', S')"
    by (simp add: kstate_subscribe_state_def p_def)
  note f = subscribe_mapping_fail [OF sm nz]
  note g = subscribe_mapping_fail_step [OF sm nz, unfolded pw]
  from reset have same: "s\<lparr>s_name := None, s_permissions := 0\<rparr> = s"
    "s\<lparr>s_name := None, s_permissions := 0, s_map_addr := 0, s_map_length := 0\<rparr> = s"
    "s\<lparr>s_map_addr := 0, s_map_length := 0\<rparr> = s"
    by (simp_all add: state_is_reset_def)
  from f have S': "S' = Some s" by (auto simp: same)
  from f obtain e where "r = - errno_val e" by blast
  then have neg: "r < 0" by simp
  from S' reset have obs: "\<not> kstate_state_is_subscribed S'" "kstate_get_state_name S' = None"
    "kstate_get_state_permissions S' = 0" "kstate_get_state_ptr S' = 0"
    by (simp_all add: state_is_reset_def kstate_state_is_subscribed_def kstate_get_state_name_def
        kstate_get_state_permissions_def kstate_get_state_ptr_def)
  from neg g S' obs f show ?thesis by blast
qed

text \<open>The theorem at the failed subscription of the run.\<close>

theorem failed_subscribe_resets_handle_witness:
  "state_is_reset ex_state0
   \<and> \<not> state_permissions_are_bad (KSTATE_READ OR KSTATE_WRITE)
   \<and> new_state_name (e_malloc ex_env_fail) (Some ''Fred.A'') = Inr ''/kstate.Fred.A''
   \<and> kstate_subscribe_state ex_env_fail ex_os0 (Some ex_state0) (Some ''Fred.A'') (KSTATE_READ OR KSTATE_WRITE)
       = (- 12, ex_os_leak, Some ex_state0)
   \<and> \<not> kstate_state_is_subscribed (Some ex_state0)
   \<and> kstate_get_state_ptr (Some ex_state0) = 0
   \<and> vm ex_os_leak = vm ex_os0"
proof -
  have p: "\<not> state_permissions_are_bad (KSTATE_READ OR KSTATE_WRITE)"
    by (simp add: state_permissions_are_bad_def KSTATE_READ_def KSTATE_WRITE_def)
  have n: "new_state_name (e_malloc ex_env_fail) (Some ''Fred.A'') = Inr ''/kstate.Fred.A''"
    by (simp add: new_state_name_def ex_check_name ex_env_fail_def KSTATE_NAME_PREFIX_def)
  have nz: "(- 12 :: int) \<noteq> 0" by simp
  from failed_subscribe_resets_handle [OF ex_state0_reset p n ex_subscribe_fail nz]
  show ?thesis using ex_state0_reset p n ex_subscribe_fail by simp
qed

subsection \<open>Invariants of handles\<close>

lemma state_observers_agree_iff:
  "state_observers_agree S \<longleftrightarrow>
     (case S of None \<Rightarrow> True
      | Some s \<Rightarrow> s_name s \<noteq> None \<longrightarrow> s_map_addr s \<noteq> 0 \<and> s_permissions s \<noteq> 0)"
  by (auto simp: state_observers_agree_def kstate_state_is_subscribed_def kstate_get_state_name_def
      kstate_get_state_ptr_def kstate_get_state_permissions_def split: option.splits)

lemma transaction_observers_agree_iff:
  "transaction_observers_agree T \<longleftrightarrow>
     (case T of None \<Rightarrow> True
      | Some t \<Rightarrow> t_name t \<noteq> None \<longrightarrow> t_map_addr t \<noteq> 0 \<and> t_permissions t \<noteq> 0)"
  by (auto simp: transaction_observers_agree_def kstate_transaction_is_active_def
      kstate_get_transaction_name_def kstate_get_transaction_ptr_def
      kstate_get_transaction_permissions_def split: option.splits)

lemma clear_transaction_shape:
  assumes "clear_transaction os t = (r, os', t')"
  shows "t_id t' = t_id t"
    and "t_name t' \<noteq> None \<Longrightarrow>
           t_name t' = t_name t \<and> t_permissions t' = t_permissions t \<and> t_map_addr t' = t_map_addr t
           \<and> (t_map_addr t \<noteq> 0
               \<or> (t_state_map_addr t \<noteq> 0 \<and> t_state_map_addr t \<noteq> MAP_FAILED
                   \<and> (t_map_length t = 0 \<or> t_state_map_addr t mod page_size os \<noteq> 0)))"
  using assms
  by (auto simp: clear_transaction_def os_munmap_def Let_def split: if_splits prod.splits option.splits)

lemma start_local_copy_inv:
  assumes res: "start_local_copy ev os t p = Inr (r, os', T')"
    and act: "t_name t \<noteq> None" "t_permissions t \<noteq> 0"
  shows "\<exists>t'. T' = Some t' \<and> t_id t' = t_id t
           \<and> (t_name t' \<noteq> None \<longrightarrow> t_map_addr t' \<noteq> 0 \<and> t_permissions t' \<noteq> 0)"
proof -
  obtain r1 os1 where mm: "os_mmap (e_mmap_anon ev) os (t_map_length t) True None = (r1, os1)"
    by (cases "os_mmap (e_mmap_anon ev) os (t_map_length t) True None")
  show ?thesis
  proof (cases r1)
    case (Inl e)
    obtain x y z where cl: "clear_transaction os1 (t\<lparr>t_map_addr := MAP_FAILED\<rparr>) = (x, y, z)"
      by (cases "clear_transaction os1 (t\<lparr>t_map_addr := MAP_FAILED\<rparr>)")
    with res mm Inl have "T' = Some z" by (simp add: start_local_copy_def)
    with clear_transaction_shape [OF cl] act show ?thesis
      by (auto simp: MAP_FAILED_def)
  next
    case (Inr a)
    note a = os_mmap_anon_Inr [OF mm [unfolded Inr]]
    have z: "t_id (snd (snd (clear_transaction o4 (t\<lparr>t_map_addr := a\<rparr>)))) = t_id t
        \<and> (t_name (snd (snd (clear_transaction o4 (t\<lparr>t_map_addr := a\<rparr>)))) \<noteq> None \<longrightarrow>
             t_map_addr (snd (snd (clear_transaction o4 (t\<lparr>t_map_addr := a\<rparr>)))) \<noteq> 0
             \<and> t_permissions (snd (snd (clear_transaction o4 (t\<lparr>t_map_addr := a\<rparr>)))) \<noteq> 0)" for o4
      using clear_transaction_shape [of o4 "t\<lparr>t_map_addr := a\<rparr>"
          "fst (clear_transaction o4 (t\<lparr>t_map_addr := a\<rparr>))"
          "fst (snd (clear_transaction o4 (t\<lparr>t_map_addr := a\<rparr>)))"
          "snd (snd (clear_transaction o4 (t\<lparr>t_map_addr := a\<rparr>)))"] act a(2)
      by auto
    from res mm Inr have "T' = Some (t\<lparr>t_map_addr := a\<rparr>)
        \<or> (\<exists>o4. T' = Some (snd (snd (clear_transaction o4 (t\<lparr>t_map_addr := a\<rparr>)))))"
      by (auto simp: start_local_copy_def Let_def case_prod_beta split: option.splits if_splits)
    with z act a(2) show ?thesis by auto
  qed
qed


lemma start_shared_copy_inv:
  assumes res: "start_shared_copy ev os t nm len p = Inr (r, os', T')" and p: "p \<noteq> 0"
  shows "\<exists>t'. T' = Some t' \<and> t_id t' = t_id t
           \<and> (t_name t' \<noteq> None \<longrightarrow> t_map_addr t' \<noteq> 0 \<and> t_permissions t' \<noteq> 0)"
proof (cases "e_malloc ev")
  case False
  with res show ?thesis by (auto simp: start_shared_copy_def Let_def)
next
  case True
  define t2 where "t2 = t\<lparr>t_permissions := p, t_name := Some nm, t_map_length := len\<rparr>"
  obtain r1 os1 where so: "os_shm_open (e_shm_open ev) os nm (p AND KSTATE_WRITE \<noteq> 0) False = (r1, os1)"
    by (cases "os_shm_open (e_shm_open ev) os nm (p AND KSTATE_WRITE \<noteq> 0) False")
  show ?thesis
  proof (cases r1)
    case (Inl e)
    with res True so show ?thesis by (auto simp: start_shared_copy_def Let_def)
  next
    case (Inr fd)
    obtain r2 os2 where mm: "os_mmap (e_mmap ev) os1 len (p AND KSTATE_WRITE \<noteq> 0) (Some fd) = (r2, os2)"
      by (cases "os_mmap (e_mmap ev) os1 len (p AND KSTATE_WRITE \<noteq> 0) (Some fd)")
    show ?thesis
    proof (cases r2)
      case (Inl e)
      obtain x y z where cl: "clear_transaction os2 (t2\<lparr>t_state_map_addr := MAP_FAILED\<rparr>) = (x, y, z)"
        by (cases "clear_transaction os2 (t2\<lparr>t_state_map_addr := MAP_FAILED\<rparr>)")
      with res True so \<open>r1 = Inr fd\<close> mm Inl have "T' = Some z"
        by (simp add: start_shared_copy_def Let_def t2_def)
      with clear_transaction_shape [OF cl] p show ?thesis
        by (auto simp: t2_def)
    next
      case (Inr a)
      from mm [unfolded Inr] obtain ob rdwr where a:
        "len \<noteq> 0" "a \<noteq> 0" "a \<noteq> MAP_FAILED" "a mod page_size os1 = 0"
        "os2 = os1\<lparr>vm := (vm os1)(a \<mapsto> \<lparr>m_backing = Shm ob, m_length = len, m_write = (p AND KSTATE_WRITE \<noteq> 0)\<rparr>)\<rparr>"
        by (rule os_mmap_shared_Inr)
      define t3 where "t3 = t2\<lparr>t_state_map_addr := a\<rparr>"
      define os3 where "os3 = os_close os2 fd"
      have ps: "page_size os3 = page_size os1" by (simp add: os3_def a(5))
      show ?thesis
      proof (cases "p AND KSTATE_WRITE \<noteq> 0")
        case False
        with res True so \<open>r1 = Inr fd\<close> mm Inr have "start_local_copy ev os3 t3 p = Inr (r, os', T')"
          by (simp add: start_shared_copy_def Let_def t2_def t3_def os3_def)
        from start_local_copy_inv [OF this] p show ?thesis by (simp add: t3_def t2_def)
      next
        case wr: True
        show ?thesis
        proof (cases "e_malloc_copy ev")
          case False
          obtain x y z where cl: "clear_transaction os3 (t3\<lparr>t_state_map_copy := None\<rparr>) = (x, y, z)"
            by (cases "clear_transaction os3 (t3\<lparr>t_state_map_copy := None\<rparr>)")
          with res True so \<open>r1 = Inr fd\<close> mm Inr wr False have "T' = Some z"
            by (simp add: start_shared_copy_def Let_def t2_def t3_def os3_def)
          with clear_transaction_shape [OF cl] p a(1-4) ps show ?thesis
            by (auto simp: t3_def t2_def)
        next
          case mc: True
          from res True so \<open>r1 = Inr fd\<close> mm Inr wr mc obtain live where
            "start_local_copy ev os3 (t3\<lparr>t_state_map_copy := Some live\<rparr>) p = Inr (r, os', T')"
            by (cases "os_load os3 a len")
               (simp_all add: start_shared_copy_def Let_def t2_def t3_def os3_def)
          from start_local_copy_inv [OF this] p show ?thesis by (simp add: t3_def t2_def)
        qed
      qed
    qed
  qed
qed

lemma start_preserves:
  assumes res: "kstate_start_transaction ev os T S permissions = Inr (r, os', T')"
    and inv: "transaction_observers_agree T"
  shows "transaction_observers_agree T'
      \<and> (case T of None \<Rightarrow> T' = None | Some t \<Rightarrow> \<exists>t'. T' = Some t' \<and> t_id t' = t_id t)"
proof -
  show ?thesis
  proof (cases "T' = T")
    case True
    with inv show ?thesis by (simp split: option.splits)
  next
    case False
    with res obtain t s nm where T: "T = Some t" and S: "S = Some s" "s_name s = Some nm"
      and good: "\<not> transaction_permissions_are_bad permissions"
      by (auto simp: kstate_start_transaction_def Let_def split: option.splits if_splits)
    define p where "p = (if permissions AND KSTATE_READ = 0 then permissions OR KSTATE_READ else permissions)"
    have p0: "p \<noteq> 0"
      using transaction_permissions_cases [OF good]
      by (auto simp: p_def KSTATE_READ_def)
    from res False T S good have "start_shared_copy ev os t nm (s_map_length s) p = Inr (r, os', T')"
      by (auto simp: kstate_start_transaction_def Let_def p_def split: if_splits)
    from start_shared_copy_inv [OF this p0] T show ?thesis
      by (auto simp: transaction_observers_agree_iff)
  qed
qed

lemma clear_preserves:
  assumes cl: "clear_transaction os t = (r, os', t')" and inv: "transaction_observers_agree (Some t)"
    and act: "t_name t \<noteq> None"
  shows "transaction_observers_agree (Some t')" "t_id t' = t_id t"
  using clear_transaction_shape [OF cl] inv act
  by (auto simp: transaction_observers_agree_iff)

lemma abort_preserves:
  assumes res: "kstate_abort_transaction os T = (r, os', T')"
    and inv: "transaction_observers_agree T"
  shows "transaction_observers_agree T'
      \<and> (case T of None \<Rightarrow> T' = None | Some t \<Rightarrow> \<exists>t'. T' = Some t' \<and> t_id t' = t_id t)"
proof (cases T)
  case None
  with res inv show ?thesis by (simp add: kstate_abort_transaction_def)
next
  case (Some t)
  show ?thesis
  proof (cases "t_name t = None")
    case True
    with res Some inv show ?thesis
      by (auto simp: kstate_abort_transaction_def kstate_transaction_is_active_def)
  next
    case False
    obtain x y z where cl: "clear_transaction os t = (x, y, z)"
      by (cases "clear_transaction os t")
    with res Some False have "T' = Some z"
      by (auto simp: kstate_abort_transaction_def kstate_transaction_is_active_def)
    with clear_preserves [OF cl] inv Some False show ?thesis by simp
  qed
qed

lemma commit_preserves:
  assumes res: "kstate_commit_transaction os T = Inr (r, os', T')"
    and inv: "transaction_observers_agree T"
  shows "transaction_observers_agree T'
      \<and> (case T of None \<Rightarrow> T' = None | Some t \<Rightarrow> \<exists>t'. T' = Some t' \<and> t_id t' = t_id t)"
proof (cases "T' = T")
  case True
  with inv show ?thesis by (simp split: option.splits)
next
  case False
  with res obtain t where T: "T = Some t" and act: "t_name t \<noteq> None"
    by (auto simp: kstate_commit_transaction_def kstate_transaction_is_active_def
        split: option.splits if_splits)
  have z: "transaction_observers_agree (Some (snd (snd (clear_transaction o4 t))))
      \<and> t_id (snd (snd (clear_transaction o4 t))) = t_id t" for o4
    using clear_preserves [of o4 t "fst (clear_transaction o4 t)"
        "fst (snd (clear_transaction o4 t))" "snd (snd (clear_transaction o4 t))"] inv T act
    by simp
  from res False T act have "\<exists>o4. T' = Some (snd (snd (clear_transaction o4 t)))"
    by (auto simp: kstate_commit_transaction_def kstate_transaction_is_active_def Let_def
        case_prod_beta split: option.splits if_splits)
  with z T show ?thesis by auto
qed

lemma free_transaction_result:
  "kstate_free_transaction os (Some T) = (os', V) \<Longrightarrow> V = Some None"
  by (auto simp: kstate_free_transaction_def Let_def split: option.splits)

lemma new_transaction_result:
  assumes "kstate_new_transaction True n = Inr (T, n')"
  shows "T = Some \<lparr>t_name = None, t_id = n, t_permissions = 0, t_state_map_addr = 0,
                    t_state_map_copy = None, t_map_addr = 0, t_map_length = 0\<rparr>"
    and "n' = (if n + 1 = 0 then 1 else n + 1)"
  using assms by (auto simp: kstate_new_transaction_def Let_def)

lemma new_state_result:
  assumes "kstate_new_state True n = Inr (S, n')"
  shows "S = Some \<lparr>s_name = None, s_permissions = 0, s_id = n, s_map_addr = 0, s_map_length = 0\<rparr>"
    and "n' = (if n + 1 = 0 then 1 else n + 1)"
  using assms by (auto simp: kstate_new_state_def Let_def)

lemma subscribe_preserves:
  assumes res: "kstate_subscribe_state ev os S name permissions = (r, os', S')"
    and inv: "state_observers_agree S"
  shows "state_observers_agree S'
      \<and> (case S of None \<Rightarrow> S' = None | Some s \<Rightarrow> \<exists>s'. S' = Some s' \<and> s_id s' = s_id s)"
proof (cases "S' = S")
  case True
  with inv show ?thesis by (simp split: option.splits)
next
  case False
  with res obtain s nm where S: "S = Some s"
    and good: "\<not> state_permissions_are_bad permissions"
    by (auto simp: kstate_subscribe_state_def Let_def split: option.splits if_splits sum.splits)
  define p where "p = (if permissions AND KSTATE_READ = 0 then permissions OR KSTATE_READ else permissions)"
  have p13: "p = 1 \<or> p = 3"
    using state_permissions_cases [OF good]
    by (auto simp: p_def KSTATE_READ_def)
  from res False S good obtain nm where sm: "subscribe_mapping ev os s nm p = (r, os', S')"
    by (auto simp: kstate_subscribe_state_def Let_def p_def split: if_splits sum.splits)
  show ?thesis
  proof (cases "r = 0")
    case True
    from subscribe_mapping_ok [OF sm [unfolded True] p13] obtain s' where
      "S' = Some s'" "state_ok os' s'" "s_id s' = s_id s" by blast
    with S show ?thesis
      by (auto simp: state_observers_agree_iff state_ok_def KSTATE_READ_def KSTATE_WRITE_def)
  next
    case False
    from subscribe_mapping_fail [OF sm False] S show ?thesis
      by (auto simp: state_observers_agree_iff)
  qed
qed

lemma unsubscribe_preserves:
  assumes res: "kstate_unsubscribe_state os S = (os', S')"
  shows "state_observers_agree S'
      \<and> (case S of None \<Rightarrow> S' = None | Some s \<Rightarrow> \<exists>s'. S' = Some s' \<and> s_id s' = s_id s \<and> s_name s' = None)"
  using assms
  by (auto simp: kstate_unsubscribe_state_def state_observers_agree_iff Let_def
      split: option.splits if_splits)

lemma free_state_result:
  "kstate_free_state os (Some S) = (os', V) \<Longrightarrow> V = Some None"
  by (auto simp: kstate_free_state_def Let_def split: option.splits)


lemma state_life_inv:
  "state_life i S \<Longrightarrow>
     i \<noteq> 0 \<and> state_observers_agree S \<and> (case S of None \<Rightarrow> True | Some s \<Rightarrow> s_id s = i)"
proof (induction rule: state_life.induct)
  case (new next_state_id S n')
  from new_state_result(1) [OF new(2)] new(1) show ?case
    by (simp add: state_observers_agree_iff)
next
  case (subscribe i S ev os name permissions r os' S')
  from subscribe_preserves [OF subscribe(2)] subscribe(3) show ?case
    by (auto split: option.splits)
next
  case (unsubscribe i S os os' S')
  from unsubscribe_preserves [OF unsubscribe(2)] unsubscribe(3) show ?case
    by (auto split: option.splits)
next
  case (free i S os os' S')
  from free_state_result [OF free(2)] free(3) show ?case
    by (simp add: state_observers_agree_iff)
qed

lemma transaction_life_inv:
  "transaction_life i T \<Longrightarrow>
     i \<noteq> 0 \<and> transaction_observers_agree T \<and> (case T of None \<Rightarrow> True | Some t \<Rightarrow> t_id t = i)"
proof (induction rule: transaction_life.induct)
  case (new next_transaction_id T n')
  from new_transaction_result(1) [OF new(2)] new(1) show ?case
    by (simp add: transaction_observers_agree_iff)
next
  case (start i T ev os S permissions r os' T')
  from start_preserves [OF start(2)] start(3) show ?case
    by (auto split: option.splits)
next
  case (commit i T os r os' T')
  from commit_preserves [OF commit(2)] commit(3) show ?case
    by (auto split: option.splits)
next
  case (abort i T os r os' T')
  from abort_preserves [OF abort(2)] abort(3) show ?case
    by (auto split: option.splits)
next
  case (free i T os os' T')
  from free_transaction_result [OF free(2)] free(3) show ?case
    by (simp add: transaction_observers_agree_iff)
qed

lemma ex_state_life: "state_life 1 (Some ex_state)"
proof -
  have "state_life 1 (Some ex_state0)"
    by (rule state_life.new [OF _ ex_new_state]) simp
  then show ?thesis by (rule state_life.subscribe [OF _ ex_subscribe])
qed

lemma ex_transaction_life: "transaction_life 1 (Some ex_txn)"
proof -
  have "transaction_life 1 (Some ex_txn0)"
    by (rule transaction_life.new [OF _ ex_new_transaction]) simp
  then show ?thesis by (rule transaction_life.start [OF _ ex_start])
qed

lemma successive_ids:
  fixes n :: "32 word"
  assumes "n \<noteq> 0"
  shows "(if n + 1 = 0 then 1 else n + 1) \<noteq> n" "(if n + 1 = 0 then 1 else n + 1) \<noteq> 0"
proof -
  have "n + 1 \<noteq> n" by simp
  moreover have "n + 1 = 0 \<Longrightarrow> n \<noteq> 1"
  proof
    assume "n + 1 = 0" "n = 1"
    then have "(2 :: 32 word) = 0" by simp
    then show False by simp
  qed
  ultimately show "(if n + 1 = 0 then 1 else n + 1) \<noteq> n" by auto
  show "(if n + 1 = 0 then 1 else n + 1) \<noteq> 0" by simp
qed

text \<open>
  Claim C6. For every state handle that a program can hold, being subscribed, having
  a name, having a pointer and having permissions are equivalent, and likewise for
  every transaction handle with being active. The handles a program can hold are the
  ones made by \<^verbatim>\<open>kstate_new_state\<close> (\<^verbatim>\<open>kstate_new_transaction\<close>) and passed through
  any sequence of subscribe, unsubscribe and free (start, commit, abort and free), so
  every one of these operations preserves the equivalences.
\<close>

theorem observers_agree_on_every_handle:
  "(state_life i S \<longrightarrow>
      (kstate_state_is_subscribed S \<longleftrightarrow> kstate_get_state_name S \<noteq> None)
    \<and> (kstate_state_is_subscribed S \<longleftrightarrow> kstate_get_state_ptr S \<noteq> 0)
    \<and> (kstate_state_is_subscribed S \<longleftrightarrow> kstate_get_state_permissions S \<noteq> 0))
   \<and> (transaction_life j T \<longrightarrow>
      (kstate_transaction_is_active T \<longleftrightarrow> kstate_get_transaction_name T \<noteq> None)
    \<and> (kstate_transaction_is_active T \<longleftrightarrow> kstate_get_transaction_ptr T \<noteq> 0)
    \<and> (kstate_transaction_is_active T \<longleftrightarrow> kstate_get_transaction_permissions T \<noteq> 0))"
proof (intro conjI impI)
  assume "state_life i S"
  then have "state_observers_agree S" by (simp add: state_life_inv)
  then show "kstate_state_is_subscribed S \<longleftrightarrow> kstate_get_state_name S \<noteq> None"
    "kstate_state_is_subscribed S \<longleftrightarrow> kstate_get_state_ptr S \<noteq> 0"
    "kstate_state_is_subscribed S \<longleftrightarrow> kstate_get_state_permissions S \<noteq> 0"
    unfolding state_observers_agree_def by blast+
next
  assume "transaction_life j T"
  then have "transaction_observers_agree T" by (simp add: transaction_life_inv)
  then show "kstate_transaction_is_active T \<longleftrightarrow> kstate_get_transaction_name T \<noteq> None"
    "kstate_transaction_is_active T \<longleftrightarrow> kstate_get_transaction_ptr T \<noteq> 0"
    "kstate_transaction_is_active T \<longleftrightarrow> kstate_get_transaction_permissions T \<noteq> 0"
    unfolding transaction_observers_agree_def by blast+
qed

text \<open>The theorem at the subscribed state and the started transaction of the run.\<close>

theorem observers_agree_on_every_handle_witness:
  "state_life 1 (Some ex_state) \<and> transaction_life 1 (Some ex_txn)
   \<and> kstate_state_is_subscribed (Some ex_state)
   \<and> kstate_get_state_name (Some ex_state) \<noteq> None
   \<and> kstate_get_state_ptr (Some ex_state) \<noteq> 0
   \<and> kstate_get_state_permissions (Some ex_state) \<noteq> 0
   \<and> kstate_transaction_is_active (Some ex_txn)
   \<and> kstate_get_transaction_name (Some ex_txn) \<noteq> None
   \<and> kstate_get_transaction_ptr (Some ex_txn) \<noteq> 0
   \<and> kstate_get_transaction_permissions (Some ex_txn) \<noteq> 0"
proof -
  have s: "kstate_state_is_subscribed (Some ex_state)"
    by (simp add: kstate_state_is_subscribed_def ex_state_def)
  have t: "kstate_transaction_is_active (Some ex_txn)"
    by (simp add: kstate_transaction_is_active_def ex_txn_def)
  from observers_agree_on_every_handle [of 1 "Some ex_state" 1 "Some ex_txn"]
    ex_state_life ex_transaction_life s t
  show ?thesis by simp
qed

text \<open>
  Claim C7 as stated, at the run. Two successive calls of \<^verbatim>\<open>kstate_new_state\<close> store
  the ids 1 and 2, but \<^verbatim>\<open>kstate_get_state_id\<close> returns 0 for both new handles, which
  are not subscribed: observed through the accessor the ids are neither nonzero nor
  distinct. And the id that the accessor reports for the subscribed state, 1, goes
  back to 0 with \<^verbatim>\<open>kstate_unsubscribe_state\<close>, before any free.
\<close>

theorem new_state_ids_read_as_zero:
  "kstate_new_state True 1 = Inr (Some ex_state0, 2)
   \<and> kstate_new_state True 2
       = Inr (Some \<lparr>s_name = None, s_permissions = 0, s_id = 2, s_map_addr = 0, s_map_length = 0\<rparr>, 3)
   \<and> kstate_get_state_id (Some ex_state0) = 0
   \<and> kstate_get_state_id
        (Some \<lparr>s_name = None, s_permissions = 0, s_id = 2, s_map_addr = 0, s_map_length = 0\<rparr>) = 0
   \<and> kstate_get_state_id (Some ex_state) = 1
   \<and> snd (kstate_unsubscribe_state ex_os1 (Some ex_state)) = Some ex_state0
   \<and> kstate_get_state_id (snd (kstate_unsubscribe_state ex_os1 (Some ex_state))) = 0"
  by (simp add: kstate_new_state_def kstate_get_state_id_def kstate_state_is_subscribed_def
      kstate_unsubscribe_state_def os_munmap_def os_shm_unlink_def MAP_FAILED_def
      ex_state0_def ex_state_def ex_os1_def)

text \<open>
  Claim C7 as amended. Two successive calls of \<^verbatim>\<open>kstate_new_state\<close> store distinct
  nonzero ids in their handles. The id stored at creation stays in the handle through
  every later operation, and \<^verbatim>\<open>kstate_get_state_id\<close> returns it exactly while the
  handle is subscribed and 0 otherwise: before the first subscribe, after an
  unsubscribe and after the free. So the accessor is nonzero if and only if the
  handle is bound; the same for transactions and \<^verbatim>\<open>kstate_get_transaction_id\<close>.
\<close>

theorem handle_ids:
  "(next_state_id \<noteq> 0 \<and> kstate_new_state True next_state_id = Inr (A, n1)
      \<and> kstate_new_state True n1 = Inr (B, n2)
      \<longrightarrow> (\<exists>a b. A = Some a \<and> B = Some b \<and> s_id a \<noteq> 0 \<and> s_id b \<noteq> 0 \<and> s_id a \<noteq> s_id b))
   \<and> (state_life i S \<longrightarrow>
        i \<noteq> 0 \<and> (case S of None \<Rightarrow> True | Some s \<Rightarrow> s_id s = i)
        \<and> kstate_get_state_id S = (if kstate_state_is_subscribed S then i else 0))
   \<and> (transaction_life j T \<longrightarrow>
        j \<noteq> 0 \<and> (case T of None \<Rightarrow> True | Some t \<Rightarrow> t_id t = j)
        \<and> kstate_get_transaction_id T = (if kstate_transaction_is_active T then j else 0))"
proof (intro conjI impI)
  assume a: "next_state_id \<noteq> 0 \<and> kstate_new_state True next_state_id = Inr (A, n1)
      \<and> kstate_new_state True n1 = Inr (B, n2)"
  then have A: "A = Some \<lparr>s_name = None, s_permissions = 0, s_id = next_state_id, s_map_addr = 0, s_map_length = 0\<rparr>"
    and n1: "n1 = (if next_state_id + 1 = 0 then 1 else next_state_id + 1)"
    and B: "B = Some \<lparr>s_name = None, s_permissions = 0, s_id = n1, s_map_addr = 0, s_map_length = 0\<rparr>"
    by (auto dest: new_state_result)
  from a successive_ids [of next_state_id] n1 have "n1 \<noteq> next_state_id" "n1 \<noteq> 0" by auto
  with a A B show "\<exists>a b. A = Some a \<and> B = Some b \<and> s_id a \<noteq> 0 \<and> s_id b \<noteq> 0 \<and> s_id a \<noteq> s_id b"
    by auto
next
  assume "state_life i S"
  from state_life_inv [OF this]
  show "i \<noteq> 0" "case S of None \<Rightarrow> True | Some s \<Rightarrow> s_id s = i"
    "kstate_get_state_id S = (if kstate_state_is_subscribed S then i else 0)"
    by (auto simp: kstate_get_state_id_def kstate_state_is_subscribed_def split: option.splits)
next
  assume "transaction_life j T"
  from transaction_life_inv [OF this]
  show "j \<noteq> 0" "case T of None \<Rightarrow> True | Some t \<Rightarrow> t_id t = j"
    "kstate_get_transaction_id T = (if kstate_transaction_is_active T then j else 0)"
    by (auto simp: kstate_get_transaction_id_def kstate_transaction_is_active_def split: option.splits)
qed

text \<open>The theorem at the run: the two new states, the state when subscribed and when
  new, and the started transaction.\<close>

theorem handle_ids_witness:
  "(1 :: 32 word) \<noteq> 0 \<and> kstate_new_state True 1 = Inr (Some ex_state0, 2)
   \<and> kstate_new_state True 2
       = Inr (Some \<lparr>s_name = None, s_permissions = 0, s_id = 2, s_map_addr = 0, s_map_length = 0\<rparr>, 3)
   \<and> s_id ex_state0 \<noteq> s_id \<lparr>s_name = None, s_permissions = 0, s_id = 2, s_map_addr = 0, s_map_length = 0\<rparr>
   \<and> state_life 1 (Some ex_state) \<and> kstate_get_state_id (Some ex_state) = 1
   \<and> state_life 1 (Some ex_state0) \<and> kstate_get_state_id (Some ex_state0) = 0
   \<and> transaction_life 1 (Some ex_txn) \<and> kstate_get_transaction_id (Some ex_txn) = 1"
proof -
  have n2: "kstate_new_state True 2
       = Inr (Some \<lparr>s_name = None, s_permissions = 0, s_id = 2, s_map_addr = 0, s_map_length = 0\<rparr>, 3)"
    by (simp add: kstate_new_state_def)
  have l0: "state_life 1 (Some ex_state0)"
    by (rule state_life.new [OF _ ex_new_state]) simp
  have s: "kstate_state_is_subscribed (Some ex_state)" "\<not> kstate_state_is_subscribed (Some ex_state0)"
    by (simp_all add: kstate_state_is_subscribed_def ex_state_def ex_state0_def)
  have t: "kstate_transaction_is_active (Some ex_txn)"
    by (simp add: kstate_transaction_is_active_def ex_txn_def)
  note h1 = handle_ids [where next_state_id = 1 and A = "Some ex_state0" and ?n1.0 = 2
      and B = "Some \<lparr>s_name = None, s_permissions = 0, s_id = 2, s_map_addr = 0, s_map_length = 0\<rparr>"
      and ?n2.0 = 3 and i = 1 and S = "Some ex_state" and j = 1 and T = "Some ex_txn"]
  note h2 = handle_ids [where i = 1 and S = "Some ex_state0"]
  from h1 h2 ex_new_state n2 ex_state_life l0 ex_transaction_life s t
  show ?thesis by simp
qed

subsection \<open>Allocation of handles\<close>

text \<open>
  Claim C9, at the failing input: \<^verbatim>\<open>malloc\<close> returns NULL. \<^verbatim>\<open>kstate_new_state\<close> and
  \<^verbatim>\<open>kstate_new_transaction\<close> pass the NULL to \<^verbatim>\<open>memset\<close> and then store the id
  through it; neither returns NULL.
\<close>

theorem new_handle_without_memory:
  "kstate_new_state False next_state_id = Inl BadAccess
   \<and> kstate_new_transaction False next_transaction_id = Inl BadAccess"
  by (simp add: kstate_new_state_def kstate_new_transaction_def)

subsection \<open>Observers\<close>

lemma state_is_subscribed_call:
  "kstate_state_is_subscribed_call os S = Inr (kstate_state_is_subscribed S, os, S)"
  by (cases S) (simp_all add: kstate_state_is_subscribed_call_def kstate_state_is_subscribed_def)

lemma transaction_is_active_call:
  "kstate_transaction_is_active_call os T = Inr (kstate_transaction_is_active T, os, T)"
  by (cases T) (simp_all add: kstate_transaction_is_active_call_def kstate_transaction_is_active_def)

lemma get_state_name_call:
  "kstate_get_state_name_call os S = Inr (kstate_get_state_name S, os, S)"
  by (cases S)
    (auto simp: kstate_get_state_name_call_def state_is_subscribed_call
      kstate_get_state_name_def kstate_state_is_subscribed_def)

lemma get_transaction_name_call:
  "kstate_get_transaction_name_call os T = Inr (kstate_get_transaction_name T, os, T)"
  by (cases T)
    (auto simp: kstate_get_transaction_name_call_def transaction_is_active_call
      kstate_get_transaction_name_def kstate_transaction_is_active_def)

lemma get_state_permissions_call:
  "kstate_get_state_permissions_call os S = Inr (kstate_get_state_permissions S, os, S)"
  by (cases S)
    (auto simp: kstate_get_state_permissions_call_def state_is_subscribed_call
      kstate_get_state_permissions_def kstate_state_is_subscribed_def)

lemma get_transaction_permissions_call:
  "kstate_get_transaction_permissions_call os T = Inr (kstate_get_transaction_permissions T, os, T)"
  by (cases T)
    (auto simp: kstate_get_transaction_permissions_call_def transaction_is_active_call
      kstate_get_transaction_permissions_def kstate_transaction_is_active_def)

lemma get_state_id_call:
  "kstate_get_state_id_call os S = Inr (kstate_get_state_id S, os, S)"
  by (cases S)
    (auto simp: kstate_get_state_id_call_def state_is_subscribed_call
      kstate_get_state_id_def kstate_state_is_subscribed_def)

lemma get_transaction_id_call:
  "kstate_get_transaction_id_call os T = Inr (kstate_get_transaction_id T, os, T)"
  by (cases T)
    (auto simp: kstate_get_transaction_id_call_def transaction_is_active_call
      kstate_get_transaction_id_def kstate_transaction_is_active_def)

lemma get_state_ptr_call:
  "kstate_get_state_ptr_call os S = Inr (kstate_get_state_ptr S, os, S)"
  by (cases S)
    (auto simp: kstate_get_state_ptr_call_def state_is_subscribed_call
      kstate_get_state_ptr_def kstate_state_is_subscribed_def)

lemma get_transaction_ptr_call:
  "kstate_get_transaction_ptr_call os T = Inr (kstate_get_transaction_ptr T, os, T)"
  by (cases T)
    (auto simp: kstate_get_transaction_ptr_call_def transaction_is_active_call
      kstate_get_transaction_ptr_def kstate_transaction_is_active_def)

text \<open>
  Claim C10. Each of the ten observers, called on any handle (NULL included) in any
  system, returns without a fault and leaves the system, and so the shared region and
  every mapping, and the handle with all its fields as they were; what it returns
  depends on the handle alone. Called twice in a row it therefore returns the same
  result both times, and the system and the handle are still as they were.
\<close>

theorem observers_change_nothing:
  "kstate_state_is_subscribed_call os S = Inr (kstate_state_is_subscribed S, os, S)
   \<and> twice kstate_state_is_subscribed_call os S
       = Inr (kstate_state_is_subscribed S, kstate_state_is_subscribed S, os, S)
   \<and> kstate_get_state_name_call os S = Inr (kstate_get_state_name S, os, S)
   \<and> twice kstate_get_state_name_call os S
       = Inr (kstate_get_state_name S, kstate_get_state_name S, os, S)
   \<and> kstate_get_state_permissions_call os S = Inr (kstate_get_state_permissions S, os, S)
   \<and> twice kstate_get_state_permissions_call os S
       = Inr (kstate_get_state_permissions S, kstate_get_state_permissions S, os, S)
   \<and> kstate_get_state_id_call os S = Inr (kstate_get_state_id S, os, S)
   \<and> twice kstate_get_state_id_call os S
       = Inr (kstate_get_state_id S, kstate_get_state_id S, os, S)
   \<and> kstate_get_state_ptr_call os S = Inr (kstate_get_state_ptr S, os, S)
   \<and> twice kstate_get_state_ptr_call os S
       = Inr (kstate_get_state_ptr S, kstate_get_state_ptr S, os, S)
   \<and> kstate_transaction_is_active_call os T = Inr (kstate_transaction_is_active T, os, T)
   \<and> twice kstate_transaction_is_active_call os T
       = Inr (kstate_transaction_is_active T, kstate_transaction_is_active T, os, T)
   \<and> kstate_get_transaction_name_call os T = Inr (kstate_get_transaction_name T, os, T)
   \<and> twice kstate_get_transaction_name_call os T
       = Inr (kstate_get_transaction_name T, kstate_get_transaction_name T, os, T)
   \<and> kstate_get_transaction_permissions_call os T
       = Inr (kstate_get_transaction_permissions T, os, T)
   \<and> twice kstate_get_transaction_permissions_call os T
       = Inr (kstate_get_transaction_permissions T, kstate_get_transaction_permissions T, os, T)
   \<and> kstate_get_transaction_id_call os T = Inr (kstate_get_transaction_id T, os, T)
   \<and> twice kstate_get_transaction_id_call os T
       = Inr (kstate_get_transaction_id T, kstate_get_transaction_id T, os, T)
   \<and> kstate_get_transaction_ptr_call os T = Inr (kstate_get_transaction_ptr T, os, T)
   \<and> twice kstate_get_transaction_ptr_call os T
       = Inr (kstate_get_transaction_ptr T, kstate_get_transaction_ptr T, os, T)"
  by (simp add: twice_def state_is_subscribed_call transaction_is_active_call
      get_state_name_call get_transaction_name_call
      get_state_permissions_call get_transaction_permissions_call
      get_state_id_call get_transaction_id_call
      get_state_ptr_call get_transaction_ptr_call)

end
